theory Spec2Isabelle
  imports Complex_Main "HOL-Library.Word"
begin

section \<open>JavaScript values\<close>

text \<open>
  The TypeScript sources compute with three kinds of values: \<open>number\<close> (grid coordinates,
  array indices, trap values), \<open>bigint\<close> (field elements, the outputs of the Poseidon hash)
  and byte arrays. Array indices and trap values are integer-valued numbers and are modelled
  as \<open>int\<close>; the arguments that the sources test with \<open>Number.isInteger\<close> or with range
  comparisons are modelled as \<open>rat\<close>, so that a non-integer argument is a value of the model
  (\<open>NaN\<close> and the infinities are not). A \<open>bigint\<close> is an \<open>int\<close>, a byte is an \<open>8 word\<close>.
  An \<open>undefined\<close> read from an array is \<open>None\<close>; every \<open>throw\<close> is the \<open>Inl\<close> branch of a sum.
\<close>

type_synonym byte = "8 word"
type_synonym number = rat
type_synonym bigint = int

datatype js_error =
    Error string
  | TypeError
  | RangeError
  | SyntaxError
  | InvalidSessionId number
  | InvalidXCoordinate number
  | InvalidYCoordinate number

text \<open>\<open>a % b\<close> on integer-valued numbers: the remainder has the sign of the dividend.\<close>

definition js_rem :: "int \<Rightarrow> int \<Rightarrow> int" where
  "js_rem a b = sgn a * (\<bar>a\<bar> mod \<bar>b\<bar>)"

text \<open>\<open>xs[i]\<close>: \<open>undefined\<close> outside the array.\<close>

definition js_get :: "'a list \<Rightarrow> int \<Rightarrow> 'a option" where
  "js_get xs i = (if 0 \<le> i \<and> i < int (length xs) then Some (xs ! nat i) else None)"

text \<open>
  \<open>a || b\<close> where \<open>a\<close> is a \<open>bigint\<close> or \<open>undefined\<close>: both \<open>undefined\<close> and \<open>0n\<close> are falsy.
  \<open>js_or\<close> is the case where \<open>b\<close> may be \<open>undefined\<close> too, \<open>js_or_else\<close> the case
  where \<open>b\<close> is a value.
\<close>

definition js_or :: "bigint option \<Rightarrow> bigint option \<Rightarrow> bigint option" where
  "js_or a b = (case a of None \<Rightarrow> b | Some v \<Rightarrow> (if v = 0 then b else Some v))"

definition js_or_else :: "bigint option \<Rightarrow> bigint \<Rightarrow> bigint" where
  "js_or_else a b = (case a of None \<Rightarrow> b | Some v \<Rightarrow> (if v = 0 then b else v))"

definition Number_isInteger :: "number \<Rightarrow> bool" where
  "Number_isInteger x \<longleftrightarrow> of_int \<lfloor>x\<rfloor> = x"

text \<open>\<open>String(n)\<close> and \<open>${n}\<close> for an integer-valued number below \<open>10^21\<close>: decimal digits.\<close>

definition digit_char :: "nat \<Rightarrow> char" where
  "digit_char d = char_of (48 + d)"

fun show_nat :: "nat \<Rightarrow> string" where
  "show_nat n = (if n < 10 then [digit_char n] else show_nat (n div 10) @ [digit_char (n mod 10)])"

declare show_nat.simps [simp del]

definition show_int :: "int \<Rightarrow> string" where
  "show_int i = (if i < 0 then CHR ''-'' # show_nat (nat (- i)) else show_nat (nat i))"

text \<open>\<open>s.padStart(n, c)\<close> with a one-character pad.\<close>

definition padStart :: "nat \<Rightarrow> char \<Rightarrow> string \<Rightarrow> string" where
  "padStart n c s = replicate (n - length s) c @ s"


section \<open>Grid indexing (frontend \<open>lib/utils.ts\<close>, \<open>lib/config.ts\<close>)\<close>

definition GRID_SIZE :: int where
  "GRID_SIZE = 8"

definition MERKLE_TREE_DEPTH :: nat where
  "MERKLE_TREE_DEPTH = 6"

record coordinates =
  x_of :: int
  y_of :: int

definition getCellIndex :: "int \<Rightarrow> int \<Rightarrow> int" where
  "getCellIndex x y = x * GRID_SIZE + y"

text \<open>\<open>Math.floor(index / GRID_SIZE)\<close> is \<open>div\<close> on \<open>int\<close>; \<open>index % GRID_SIZE\<close> is \<open>js_rem\<close>.\<close>

definition getCoordinatesFromIndex :: "int \<Rightarrow> coordinates" where
  "getCoordinatesFromIndex index =
     (let x = index div GRID_SIZE;
          y = js_rem index GRID_SIZE
      in \<lparr>x_of = x, y_of = y\<rparr>)"


section \<open>Splitting the prover output (the verification shell scripts)\<close>

text \<open>
  The scripts compute \<open>PUB_COUNT\<close> from the circuit's ABI, \<open>PUB_BYTES=$((PUB_COUNT * 32))\<close>,
  and write \<open>head -c "$PUB_BYTES"\<close> of the combined output to \<open>target/public_inputs\<close> and
  \<open>tail -c +$((PUB_BYTES + 1))\<close> to \<open>target/proof\<close>.
\<close>

datatype abi_type =
  AbiType (kind: string) (alength: "nat option") (elem: "abi_type option")
          (struct_fields: "abi_type list option")

record abi_parameter =
  visibility :: string
  ptype :: abi_type

text \<open>
  The inline script of the limit-orders test: an array parameter counts its length,
  every other public parameter counts one. A missing \<open>length\<close> makes the sum \<open>NaN\<close>,
  which is \<open>None\<close> here.
\<close>

fun pub_count_inline :: "abi_parameter list \<Rightarrow> nat option" where
  "pub_count_inline [] = Some 0"
| "pub_count_inline (p # ps) =
     (if visibility p = ''public'' then
        (if kind (ptype p) = ''array'' then
           (case (alength (ptype p), pub_count_inline ps) of
              (Some l, Some n) \<Rightarrow> Some (l + n)
            | _ \<Rightarrow> None)
         else map_option Suc (pub_count_inline ps))
      else pub_count_inline ps)"

text \<open>\<open>count_pub_inputs.ts\<close>: the first public parameter, flattened.\<close>

fun flatten :: "abi_type \<Rightarrow> nat" where
  "flatten (AbiType k l t fs) =
     (if k = ''array'' \<and> l \<noteq> None \<and> l \<noteq> Some 0 \<and> t \<noteq> None
      then the l * (case t of Some t' \<Rightarrow> flatten t' | None \<Rightarrow> 1)
      else 1)"

definition flattenStruct :: "abi_type \<Rightarrow> nat" where
  "flattenStruct t =
     (case struct_fields t of
        Some fs \<Rightarrow> (if kind t = ''struct'' then foldl (\<lambda>sum field. sum + flatten field) 0 fs
                    else flatten t)
      | None \<Rightarrow> flatten t)"

definition count_pub_inputs :: "abi_parameter list \<Rightarrow> nat" where
  "count_pub_inputs params =
     (case find (\<lambda>p. visibility p = ''public'') params of
        None \<Rightarrow> 0
      | Some publicParam \<Rightarrow> flattenStruct (ptype publicParam))"

text \<open>Shell arithmetic \<open>$(( ))\<close> is 64-bit signed and wraps around.\<close>

definition sh_arith :: "int \<Rightarrow> int" where
  "sh_arith v = (v + 2 ^ 63) mod 2 ^ 64 - 2 ^ 63"

text \<open>
  \<open>head -c N\<close>: the first \<open>N\<close> bytes, or all but the last \<open>-N\<close> when \<open>N\<close> is negative.
  \<open>tail -c +M\<close>: the bytes from the \<open>M\<close>-th on, counted from 1; \<open>+0\<close> is the whole input, and
  a negative \<open>M\<close> gives the argument \<open>+-m\<close>, which \<open>tail\<close> refuses (the script, under
  \<open>set -e\<close>, stops there).
\<close>

datatype sh_error = InvalidNumberOfBytes int | UnboundVariable

definition head_c :: "int \<Rightarrow> 'a list \<Rightarrow> 'a list" where
  "head_c n xs = (if 0 \<le> n then take (nat n) xs else take (length xs - nat (- n)) xs)"

definition tail_c_from :: "int \<Rightarrow> 'a list \<Rightarrow> sh_error + 'a list" where
  "tail_c_from m xs = (if m < 0 then Inl (InvalidNumberOfBytes m) else Inr (drop (nat m - 1) xs))"

record split_files =
  public_inputs_file :: "byte list"
  proof_file :: "byte list"

definition split_proof :: "nat \<Rightarrow> byte list \<Rightarrow> sh_error + split_files" where
  "split_proof PUB_COUNT proof_with_public_inputs =
     (let PUB_BYTES = sh_arith (sh_arith (int PUB_COUNT) * 32);
          public_inputs = head_c PUB_BYTES proof_with_public_inputs
      in case tail_c_from (sh_arith (PUB_BYTES + 1)) proof_with_public_inputs of
           Inl e \<Rightarrow> Inl e
         | Inr proof \<Rightarrow> Inr \<lparr>public_inputs_file = public_inputs, proof_file = proof\<rparr>)"

text \<open>Step 4 of the two scripts: the count comes from the ABI, the bytes from the prover.\<close>

definition split_step_inline :: "abi_parameter list \<Rightarrow> byte list \<Rightarrow> sh_error + split_files" where
  "split_step_inline params out =
     (case pub_count_inline params of
        None \<Rightarrow> Inl UnboundVariable
      | Some PUB_COUNT \<Rightarrow> split_proof PUB_COUNT out)"

definition split_step_trap_grid :: "abi_parameter list \<Rightarrow> byte list \<Rightarrow> sh_error + split_files" where
  "split_step_trap_grid params out = split_proof (count_pub_inputs params) out"


section \<open>The Merkle commitment of the test-data generator (\<open>generate_test_data.ts\<close>)\<close>

text \<open>
  The Poseidon hash comes from the library \<open>poseidon-lite\<close>; the model takes \<open>poseidon1\<close>
  (one input) and \<open>poseidon2\<close> (two inputs) as parameters.
\<close>

definition poseidonHash2 :: "(bigint \<Rightarrow> bigint \<Rightarrow> bigint) \<Rightarrow> bigint \<Rightarrow> bigint \<Rightarrow> bigint" where
  "poseidonHash2 poseidon2 left right = poseidon2 left right"

definition computeTrapCommitment :: "(bigint \<Rightarrow> bigint) \<Rightarrow> int \<Rightarrow> int \<Rightarrow> bigint" where
  "computeTrapCommitment poseidon1 trapValue leafIndex = poseidon1 trapValue"

text \<open>
  The inner loop of \<open>buildMerkleTree\<close>: \<open>i\<close> steps by two through \<open>currentLevel\<close>, with
  \<open>left = currentLevel[i]\<close> and \<open>right = currentLevel[i + 1] || left\<close>.
\<close>

fun nextLevel :: "(bigint \<Rightarrow> bigint \<Rightarrow> bigint) \<Rightarrow> bigint list \<Rightarrow> bigint list" where
  "nextLevel poseidon2 [] = []"
| "nextLevel poseidon2 [left] = [poseidonHash2 poseidon2 left (js_or_else None left)]"
| "nextLevel poseidon2 (left # r # rest) =
     poseidonHash2 poseidon2 left (js_or_else (Some r) left) # nextLevel poseidon2 rest"

text \<open>The outer loop: \<open>n\<close> more levels above \<open>currentLevel\<close>, each pushed onto the tree.\<close>

fun build_levels :: "(bigint \<Rightarrow> bigint \<Rightarrow> bigint) \<Rightarrow> nat \<Rightarrow> bigint list \<Rightarrow> bigint list list" where
  "build_levels poseidon2 0 currentLevel = []"
| "build_levels poseidon2 (Suc n) currentLevel =
     (let next = nextLevel poseidon2 currentLevel
      in next # build_levels poseidon2 n next)"

definition buildMerkleTree ::
  "(bigint \<Rightarrow> bigint) \<Rightarrow> (bigint \<Rightarrow> bigint \<Rightarrow> bigint) \<Rightarrow> int list \<Rightarrow> bigint list list" where
  "buildMerkleTree poseidon1 poseidon2 grid =
     (let currentLevel =
            map (\<lambda>(trap, idx). computeTrapCommitment poseidon1 trap (int idx))
                (zip grid [0..<length grid])
      in currentLevel # build_levels poseidon2 MERKLE_TREE_DEPTH currentLevel)"

text \<open>\<open>main\<close> reads the root as \<open>tree[tree.length - 1][0]\<close>.\<close>

definition tree_root :: "bigint list list \<Rightarrow> bigint option" where
  "tree_root tree =
     (case js_get tree (int (length tree) - 1) of
        None \<Rightarrow> None
      | Some top_level \<Rightarrow> js_get top_level 0)"

record MerkleProof =
  indices :: "int list"
  siblings :: "bigint option list"

text \<open>
  The loop of \<open>generateMerkleProof\<close>, at \<open>level\<close> with \<open>n\<close> iterations to go. Reading
  \<open>tree[level][...]\<close> when \<open>tree[level]\<close> is \<open>undefined\<close> throws a \<open>TypeError\<close>; a sibling
  that is \<open>undefined\<close> is pushed as it is.
\<close>

fun proof_loop :: "bigint list list \<Rightarrow> nat \<Rightarrow> nat \<Rightarrow> int \<Rightarrow> js_error + MerkleProof" where
  "proof_loop tree level 0 currentIndex = Inr \<lparr>indices = [], siblings = []\<rparr>"
| "proof_loop tree level (Suc n) currentIndex =
     (case js_get tree (int level) of
        None \<Rightarrow> Inl TypeError
      | Some nodes \<Rightarrow>
          (let isRightChild = (js_rem currentIndex 2 = 1);
               siblingIndex = (if isRightChild then currentIndex - 1 else currentIndex + 1);
               index = (if isRightChild then 1 else 0);
               sibling = js_or (js_get nodes siblingIndex) (js_get nodes currentIndex)
           in case proof_loop tree (Suc level) n (currentIndex div 2) of
                Inl e \<Rightarrow> Inl e
              | Inr rest \<Rightarrow>
                  Inr \<lparr>indices = index # indices rest, siblings = sibling # siblings rest\<rparr>))"

definition generateMerkleProof :: "bigint list list \<Rightarrow> int \<Rightarrow> js_error + MerkleProof" where
  "generateMerkleProof tree leafIndex = proof_loop tree 0 MERKLE_TREE_DEPTH leafIndex"

text \<open>
  Modelled from the spec: the recomputation of the path on the verifying side. The circuit
  that checks a Merkle proof is not among the sources; section 4.1 of the specification
  describes it: starting from the leaf commitment, each level hashes the current node with
  the recorded sibling, the current node on the right when the path bit is 1 and on the
  left otherwise. The duplicate-self rule needs no case of its own here, since the proof
  then carries the node itself as its sibling.
\<close>

fun recompute_path ::
  "(bigint \<Rightarrow> bigint \<Rightarrow> bigint) \<Rightarrow> bigint \<Rightarrow> int list \<Rightarrow> bigint option list \<Rightarrow> bigint option" where
  "recompute_path poseidon2 current [] [] = Some current"
| "recompute_path poseidon2 current (pathBit # bits) (Some sibling # sibs) =
     recompute_path poseidon2
       (if pathBit = 1 then poseidon2 sibling current else poseidon2 current sibling) bits sibs"
| "recompute_path poseidon2 current _ _ = None"


section \<open>The Merkle tree of the frontend (\<open>trap-grid-frontend/src/lib/utils.ts\<close>)\<close>

definition hashTrapValue :: "int \<Rightarrow> int \<Rightarrow> string" where
  "hashTrapValue trapValue index = ''hash_'' @ show_int trapValue @ ''_'' @ show_int index"

definition hash_pair :: "string \<Rightarrow> string \<Rightarrow> string" where
  "hash_pair left right = ''hash('' @ left @ '','' @ right @ '')''"

text \<open>The inner loop: \<open>right = i + 1 < currentLevel.length ? currentLevel[i + 1] : left\<close>.\<close>

fun nextLevel_utils :: "string list \<Rightarrow> string list" where
  "nextLevel_utils [] = []"
| "nextLevel_utils [left] = [hash_pair left left]"
| "nextLevel_utils (left # right # rest) = hash_pair left right # nextLevel_utils rest"

lemma length_nextLevel_utils: "length (nextLevel_utils xs) = (length xs + 1) div 2"
  by (induction xs rule: nextLevel_utils.induct) simp_all

text \<open>The loop \<open>while (currentLevel.length > 1)\<close>, with the tree built so far.\<close>

function build_while :: "string list list \<Rightarrow> string list \<Rightarrow> string list list \<times> string list" where
  "build_while tree currentLevel =
     (if length currentLevel > 1
      then (let next = nextLevel_utils currentLevel in build_while (tree @ [next]) next)
      else (tree, currentLevel))"
  by pat_completeness auto
termination
  by (relation "measure (\<lambda>(tree, currentLevel). length currentLevel)")
     (auto simp: length_nextLevel_utils)

declare build_while.simps [simp del]

record merkle_tree_utils =
  root_utils :: "string option"
  tree_utils :: "string list list"

definition buildMerkleTree_utils :: "int list \<Rightarrow> js_error + merkle_tree_utils" where
  "buildMerkleTree_utils trapValues =
     (if int (length trapValues) \<noteq> GRID_SIZE * GRID_SIZE
      then Inl (Error ''Invalid trap values length'')
      else
        (let leaves = map (\<lambda>(v, index). hashTrapValue v (int index))
                          (zip trapValues [0..<length trapValues]);
             (tree, currentLevel) = build_while [leaves] leaves
         in Inr \<lparr>root_utils = js_get currentLevel 0, tree_utils = tree\<rparr>))"

record MerkleProof_utils =
  indices_utils :: "int list"
  siblings_utils :: "string option list"

text \<open>
  The loop \<open>for (level = 0; level < tree.length - 1; level++)\<close> over the levels that
  remain; \<open>nodes\<close> is \<open>tree[level]\<close>.
\<close>

fun proof_loop_utils :: "string list list \<Rightarrow> int \<Rightarrow> MerkleProof_utils" where
  "proof_loop_utils (nodes # upper # levels) currentIndex =
     (let isRightNode = (js_rem currentIndex 2 = 1);
          siblingIndex = (if isRightNode then currentIndex - 1 else currentIndex + 1);
          index = (if isRightNode then 1 else 0);
          sibling = (if siblingIndex < int (length nodes) then js_get nodes siblingIndex
                     else js_get nodes currentIndex);
          rest = proof_loop_utils (upper # levels) (currentIndex div 2)
      in \<lparr>indices_utils = index # indices_utils rest,
          siblings_utils = sibling # siblings_utils rest\<rparr>)"
| "proof_loop_utils _ currentIndex = \<lparr>indices_utils = [], siblings_utils = []\<rparr>"

definition generateMerkleProof_utils :: "string list list \<Rightarrow> int \<Rightarrow> MerkleProof_utils" where
  "generateMerkleProof_utils tree leafIndex = proof_loop_utils tree leafIndex"


section \<open>Proof generation (\<open>lib/zkProof.ts\<close>, \<open>lib/poseidon.ts\<close>)\<close>

definition hex_char :: "nat \<Rightarrow> char" where
  "hex_char d = (if d < 10 then char_of (48 + d) else char_of (87 + d))"

fun show_hex_nat :: "nat \<Rightarrow> string" where
  "show_hex_nat n = (if n < 16 then [hex_char n] else show_hex_nat (n div 16) @ [hex_char (n mod 16)])"

declare show_hex_nat.simps [simp del]

text \<open>\<open>field.toString(16)\<close> on a \<open>bigint\<close>.\<close>

definition toString16 :: "bigint \<Rightarrow> string" where
  "toString16 v = (if v < 0 then CHR ''-'' # show_hex_nat (nat (- v)) else show_hex_nat (nat v))"

definition fieldToHex :: "bigint \<Rightarrow> string" where
  "fieldToHex field = ''0x'' @ padStart 64 (CHR ''0'') (toString16 field)"

text \<open>\<open>toField(value) = BigInt(value)\<close>, which throws a \<open>RangeError\<close> on a non-integer.\<close>

definition toField :: "number \<Rightarrow> js_error + bigint" where
  "toField v = (if Number_isInteger v then Inr \<lfloor>v\<rfloor> else Inl RangeError)"

text \<open>
  \<open>computeTrapCommitment\<close> of the position-movement circuit. Its hash \<open>poseidonHash1\<close>
  (the library's \<open>poseidon1\<close>, or the fallback of \<open>lib/poseidon.ts\<close> when the library is
  missing) is a parameter.
\<close>

definition computeTrapCommitment_zk :: "(bigint \<Rightarrow> bigint) \<Rightarrow> number \<Rightarrow> js_error + string" where
  "computeTrapCommitment_zk poseidonHash1 trapValue =
     (if trapValue \<noteq> 0 \<and> trapValue \<noteq> 1 then Inl (Error ''Trap value must be 0 or 1'')
      else case toField trapValue of
             Inl e \<Rightarrow> Inl e
           | Inr f \<Rightarrow> Inr (fieldToHex (poseidonHash1 f)))"

record ZKProofData =
  zk_proof :: "byte list"
  zk_publicInputs :: "byte list"

text \<open>
  The inputs handed to the circuit. The source passes the numbers as decimal strings
  (\<open>moveX.toString()\<close>); the record keeps the numbers.
\<close>

record circuit_inputs =
  trap_commitment :: string
  move_x :: number
  move_y :: number
  is_hit :: string
  trap_value :: number

text \<open>
  A run of \<open>generateProof\<close> yields what the caller gets (a thrown error or the proof data)
  and the calls made to the proving backend. The backend is external: \<open>backend_reply\<close> is
  what the body of the \<open>try\<close> block gives in this run, that is the loading of the Noir
  modules and of the circuit artifact, \<open>noir.execute\<close> and \<open>backend.generateProof\<close>;
  \<open>Inl\<close> when any of them throws.
\<close>

record proof_run =
  outcome :: "js_error + ZKProofData"
  prover_calls :: "circuit_inputs list"

definition thrown :: "js_error \<Rightarrow> proof_run" where
  "thrown e = \<lparr>outcome = Inl e, prover_calls = []\<rparr>"

definition generateProof ::
  "(bigint \<Rightarrow> bigint) \<Rightarrow> (js_error + ZKProofData) \<Rightarrow> number \<Rightarrow> number \<Rightarrow> number \<Rightarrow> bool \<Rightarrow> proof_run" where
  "generateProof poseidonHash1 backend_reply trapValue moveX moveY isHit =
     (if trapValue \<noteq> 0 \<and> trapValue \<noteq> 1 then thrown (Error ''Trap value must be 0 or 1'')
      else if moveX < 0 \<or> moveX \<ge> 8 then thrown (Error ''Move X must be in range [0, 7]'')
      else if moveY < 0 \<or> moveY \<ge> 8 then thrown (Error ''Move Y must be in range [0, 7]'')
      else if (isHit \<and> trapValue \<noteq> 1) \<or> (\<not> isHit \<and> trapValue \<noteq> 0)
        then thrown (Error ''Claimed result must match trap value'')
      else
        (case computeTrapCommitment_zk poseidonHash1 trapValue of
           Inl e \<Rightarrow> thrown e
         | Inr trapCommitment \<Rightarrow>
             (let inputs = \<lparr>trap_commitment = trapCommitment, move_x = moveX, move_y = moveY,
                             is_hit = (if isHit then ''1'' else ''0''), trap_value = trapValue\<rparr>
              in case backend_reply of
                   Inr generated \<Rightarrow>
                     \<lparr>outcome = Inr \<lparr>zk_proof = zk_proof generated,
                                       zk_publicInputs = zk_publicInputs generated\<rparr>,
                      prover_calls = [inputs]\<rparr>
                 | Inl error \<Rightarrow>
                     (let dummyProof = replicate 2144 0;
                          dummyPublicInputs = replicate 128 0
                      in \<lparr>outcome = Inr \<lparr>zk_proof = dummyProof,
                                           zk_publicInputs = dummyPublicInputs\<rparr>,
                          prover_calls = [inputs]\<rparr>))))"

text \<open>
  \<open>generateProof\<close> of the Merkle-root frontend (\<open>trap-grid-frontend\<close>): it logs its
  arguments, waits a second and returns fixed bytes. No backend is called.
\<close>

definition generateProof_frontend ::
  "int \<Rightarrow> number \<Rightarrow> number \<Rightarrow> bool \<Rightarrow> string \<Rightarrow> MerkleProof_utils \<Rightarrow> ZKProofData" where
  "generateProof_frontend trapValue moveX moveY isHit trapMerkleRoot merkleProof =
     \<lparr>zk_proof = [0x00, 0x01, 0x02, 0x03], zk_publicInputs = [0x00, 0x00, 0x00, 0x00]\<rparr>"


section \<open>Submitting a move (\<open>app/src/lib/stellar.ts\<close>, \<open>AttackerUI.tsx\<close>)\<close>

text \<open>
  \<open>makeMove\<close> validates its arguments and then works through the Stellar SDK: it builds
  the RPC server object (\<open>getServer\<close>), loads the signer's account from the server, builds
  the contract object from the configured contract id, builds the transaction that calls
  \<open>make_move\<close>, and asks the server to prepare it. The SDK and the server are external:
  \<open>environment\<close> holds what each of these steps gives in this run. The three constructions
  send nothing; each is \<open>None\<close> when it succeeds and \<open>Some e\<close> when it throws \<open>e\<close> (an
  insecure or malformed RPC URL, an invalid contract id, a value the SDK cannot convert).
  The two requests to the server answer with a value, or throw. \<open>loadAccount\<close> calls
  \<open>getServer\<close> once more, with the same configuration and so the same outcome. A run
  yields the prepared transaction (or the error thrown) and the requests sent to the
  server, in order.
\<close>

record make_move_call =
  arg_sessionId :: number
  arg_x :: number
  arg_y :: number
  arg_isHit :: bool
  arg_proof :: "byte list"
  arg_publicInputs :: "byte list"

record environment =
  new_Server :: "js_error option"
  getAccount_reply :: "js_error + string"
  new_Contract :: "js_error option"
  build_transaction :: "js_error option"
  prepareTransaction_reply :: "js_error + string"

datatype server_request = GetAccount string | PrepareTransaction make_move_call

record move_run =
  move_result :: "js_error + string"
  server_requests :: "server_request list"

definition makeMove ::
  "environment \<Rightarrow> number \<Rightarrow> number \<Rightarrow> number \<Rightarrow> bool \<Rightarrow> byte list \<Rightarrow> byte list \<Rightarrow> string \<Rightarrow> move_run" where
  "makeMove env sessionId x y isHit proof publicInputs signerPublicKey =
     (if \<not> Number_isInteger sessionId \<or> sessionId < 0 \<or> sessionId > 4294967295
        then \<lparr>move_result = Inl (InvalidSessionId sessionId), server_requests = []\<rparr>
      else if \<not> Number_isInteger x \<or> x < 0 \<or> x > 4294967295
        then \<lparr>move_result = Inl (InvalidXCoordinate x), server_requests = []\<rparr>
      else if \<not> Number_isInteger y \<or> y < 0 \<or> y > 4294967295
        then \<lparr>move_result = Inl (InvalidYCoordinate y), server_requests = []\<rparr>
      else
        (case new_Server env of
           Some e \<Rightarrow> \<lparr>move_result = Inl e, server_requests = []\<rparr>
         | None \<Rightarrow>
        (case getAccount_reply env of
           Inl e \<Rightarrow> \<lparr>move_result = Inl e, server_requests = [GetAccount signerPublicKey]\<rparr>
         | Inr account \<Rightarrow>
        (case new_Contract env of
           Some e \<Rightarrow> \<lparr>move_result = Inl e, server_requests = [GetAccount signerPublicKey]\<rparr>
         | None \<Rightarrow>
        (case build_transaction env of
           Some e \<Rightarrow> \<lparr>move_result = Inl e, server_requests = [GetAccount signerPublicKey]\<rparr>
         | None \<Rightarrow>
             (let call = \<lparr>arg_sessionId = sessionId, arg_x = x, arg_y = y, arg_isHit = isHit,
                           arg_proof = proof, arg_publicInputs = publicInputs\<rparr>
              in case prepareTransaction_reply env of
                   Inl e \<Rightarrow>
                     \<lparr>move_result = Inl e,
                      server_requests = [GetAccount signerPublicKey, PrepareTransaction call]\<rparr>
                 | Inr prepared \<Rightarrow>
                     \<lparr>move_result = Inr prepared,
                      server_requests = [GetAccount signerPublicKey, PrepareTransaction call]\<rparr>))))))"

text \<open>
  \<open>handleMakeMove\<close> of the attacker's page, up to its call of \<open>makeMove\<close>: without a
  selected cell, a connected wallet or a loaded game it only shows a message.
\<close>

definition handleMakeMove ::
  "environment \<Rightarrow> number \<Rightarrow> (number \<times> number) option \<Rightarrow> string option \<Rightarrow> bool \<Rightarrow> move_run option" where
  "handleMakeMove server sessionId selectedCell publicKey gameLoaded =
     (case (selectedCell, publicKey) of
        (Some (x, y), Some key) \<Rightarrow>
          (if gameLoaded \<and> key \<noteq> [] then
             (let dummyProof = [0];
                  dummyPublicInputs = [0]
              in Some (makeMove server sessionId x y False dummyProof dummyPublicInputs key))
           else None)
      | _ \<Rightarrow> None)"


section \<open>Serialising the public inputs (\<open>build_public_inputs.ts\<close>)\<close>

definition hex_digit :: "char \<Rightarrow> nat option" where
  "hex_digit c =
     (let n = of_char c :: nat
      in if 48 \<le> n \<and> n \<le> 57 then Some (n - 48)
         else if 97 \<le> n \<and> n \<le> 102 then Some (n - 87)
         else if 65 \<le> n \<and> n \<le> 70 then Some (n - 55)
         else None)"

text \<open>
  \<open>Buffer.from(s, 'hex')\<close>: one byte per pair of hexadecimal digits; decoding stops at the
  first pair that is not one, and a trailing single digit is dropped.
\<close>

fun Buffer_from_hex :: "string \<Rightarrow> byte list" where
  "Buffer_from_hex (a # b # rest) =
     (case (hex_digit a, hex_digit b) of
        (Some h, Some l) \<Rightarrow> of_nat (16 * h + l) # Buffer_from_hex rest
      | _ \<Rightarrow> [])"
| "Buffer_from_hex _ = []"

definition cleanHex :: "string \<Rightarrow> string" where
  "cleanHex hex = (if take 2 hex = ''0x'' then drop 2 hex else hex)"

definition hexToBytes32 :: "string \<Rightarrow> byte list" where
  "hexToBytes32 hex =
     (let padded = padStart 64 (CHR ''0'') (cleanHex hex)
      in Buffer_from_hex padded)"

text \<open>The \<open>n\<close> low bytes of a value, most significant first.\<close>

fun be_bytes :: "nat \<Rightarrow> int \<Rightarrow> byte list" where
  "be_bytes 0 v = []"
| "be_bytes (Suc n) v = be_bytes n (v div 256) @ [of_int v]"

text \<open>
  \<open>buf.writeBigUInt64BE(v, offset)\<close> and \<open>buf.writeUInt32BE(v, offset)\<close> overwrite 8 and 4
  bytes from \<open>offset\<close> on. Both throw a \<open>RangeError\<close> when the value does not fit or the
  bytes would not lie inside the buffer.
\<close>

definition write_be :: "nat \<Rightarrow> int \<Rightarrow> nat \<Rightarrow> byte list \<Rightarrow> js_error + byte list" where
  "write_be width v offset buf =
     (if v < 0 \<or> 2 ^ (8 * width) \<le> v \<or> length buf < offset + width then Inl RangeError
      else Inr (take offset buf @ be_bytes width v @ drop (offset + width) buf))"

definition writeBigUInt64BE :: "int \<Rightarrow> nat \<Rightarrow> byte list \<Rightarrow> js_error + byte list" where
  "writeBigUInt64BE v offset buf = write_be 8 v offset buf"

definition writeUInt32BE :: "int \<Rightarrow> nat \<Rightarrow> byte list \<Rightarrow> js_error + byte list" where
  "writeUInt32BE v offset buf = write_be 4 v offset buf"

text \<open>
  \<open>BigInt(value)\<close> on the strings this script reads from \<open>Prover.toml\<close>: a string of decimal
  digits is its value, the empty string is 0. \<open>BigInt\<close> also accepts a sign, surrounding
  white space and the prefixes \<open>0x\<close>, \<open>0o\<close> and \<open>0b\<close>; these are not modelled, and such a
  string is a \<open>SyntaxError\<close> here, as is every string that \<open>BigInt\<close> refuses.
\<close>

definition dec_digit :: "char \<Rightarrow> nat option" where
  "dec_digit c = (let n = of_char c :: nat in if 48 \<le> n \<and> n \<le> 57 then Some (n - 48) else None)"

fun dec_value :: "nat \<Rightarrow> string \<Rightarrow> nat option" where
  "dec_value acc [] = Some acc"
| "dec_value acc (c # cs) =
     (case dec_digit c of None \<Rightarrow> None | Some d \<Rightarrow> dec_value (10 * acc + d) cs)"

definition BigInt_of_string :: "string \<Rightarrow> js_error + bigint" where
  "BigInt_of_string s = (case dec_value 0 s of None \<Rightarrow> Inl SyntaxError | Some n \<Rightarrow> Inr (int n))"

text \<open>\<open>num >> 32n\<close> is \<open>num div 2 ^ 32\<close> and \<open>num & 0xFFFFFFFFn\<close> is \<open>num mod 2 ^ 32\<close>.\<close>

definition u32ToBytes32 :: "string \<Rightarrow> js_error + byte list" where
  "u32ToBytes32 v =
     (case BigInt_of_string v of
        Inl e \<Rightarrow> Inl e
      | Inr num \<Rightarrow>
          (let buf = replicate 32 0
           in case writeBigUInt64BE (num div 2 ^ 32) 24 buf of
                Inl e \<Rightarrow> Inl e
              | Inr buf' \<Rightarrow> writeUInt32BE (num mod 2 ^ 32) 28 buf'))"

definition u1ToBytes32 :: "string \<Rightarrow> js_error + byte list" where
  "u1ToBytes32 v = u32ToBytes32 v"

definition fieldToBytes32 :: "string \<Rightarrow> byte list" where
  "fieldToBytes32 v = hexToBytes32 v"

text \<open>\<open>a || d\<close> where \<open>a\<close> is a string or \<open>undefined\<close>: the empty string is falsy too.\<close>

definition js_or_str :: "string option \<Rightarrow> string \<Rightarrow> string" where
  "js_or_str a d = (case a of None \<Rightarrow> d | Some v \<Rightarrow> (if v = [] then d else v))"

text \<open>
  The public inputs as \<open>parseToml\<close> delivers them: strings, and lists of strings for the
  two arrays (\<open>None\<close> when the entry is not an array, which the script reads as \<open>[]\<close>).
\<close>

record PublicInputs =
  trap_merkle_root :: string
  pi_move_x :: string
  pi_move_y :: string
  pi_is_hit :: string
  trap_merkle_proof_length :: string
  trap_merkle_proof_indices :: "string list option"
  trap_merkle_proof_siblings :: "string list option"

text \<open>The pushes onto \<open>fields\<close> happen in order; the first one that throws ends the script.\<close>

fun collect :: "(js_error + 'a) list \<Rightarrow> js_error + 'a list" where
  "collect [] = Inr []"
| "collect (Inl e # rest) = Inl e"
| "collect (Inr v # rest) = (case collect rest of Inl e \<Rightarrow> Inl e | Inr vs \<Rightarrow> Inr (v # vs))"

text \<open>
  The two arrays, and the entry each loop reads at \<open>i\<close>: \<open>indices[i] || '0'\<close> and
  \<open>siblings[i] || '0x0'\<close>.
\<close>

definition proof_indices :: "PublicInputs \<Rightarrow> string list" where
  "proof_indices publicInputs =
     (case trap_merkle_proof_indices publicInputs of Some a \<Rightarrow> a | None \<Rightarrow> [])"

definition proof_siblings :: "PublicInputs \<Rightarrow> string list" where
  "proof_siblings publicInputs =
     (case trap_merkle_proof_siblings publicInputs of Some a \<Rightarrow> a | None \<Rightarrow> [])"

definition index_entry :: "PublicInputs \<Rightarrow> nat \<Rightarrow> string" where
  "index_entry publicInputs i = js_or_str (js_get (proof_indices publicInputs) (int i)) ''0''"

definition sibling_entry :: "PublicInputs \<Rightarrow> nat \<Rightarrow> string" where
  "sibling_entry publicInputs i = js_or_str (js_get (proof_siblings publicInputs) (int i)) ''0x0''"

definition build_fields :: "PublicInputs \<Rightarrow> js_error + byte list list" where
  "build_fields publicInputs =
     collect
       ([Inr (fieldToBytes32 (trap_merkle_root publicInputs)),
         u32ToBytes32 (pi_move_x publicInputs),
         u32ToBytes32 (pi_move_y publicInputs),
         u32ToBytes32 (pi_is_hit publicInputs),
         u32ToBytes32 (trap_merkle_proof_length publicInputs)]
        @ map (\<lambda>i. u1ToBytes32 (index_entry publicInputs i)) [0..<6]
        @ map (\<lambda>i. Inr (fieldToBytes32 (sibling_entry publicInputs i))) [0..<6])"

definition build_public_inputs :: "PublicInputs \<Rightarrow> js_error + byte list" where
  "build_public_inputs publicInputs =
     (case build_fields publicInputs of Inl e \<Rightarrow> Inl e | Inr fs \<Rightarrow> Inr (concat fs))"

text \<open>
  The value a string of hexadecimal digits denotes, and the value a sequence of bytes
  denotes when read most significant byte first. The serialisation is stated with them.
\<close>

fun hex_value :: "nat \<Rightarrow> string \<Rightarrow> nat option" where
  "hex_value acc [] = Some acc"
| "hex_value acc (c # cs) =
     (case hex_digit c of None \<Rightarrow> None | Some d \<Rightarrow> hex_value (16 * acc + d) cs)"

definition be_value :: "byte list \<Rightarrow> nat" where
  "be_value bs = foldl (\<lambda>acc b. 256 * acc + unat b) 0 bs"

text \<open>
  The inputs the script is written for: a field is a string of at most 64 hexadecimal
  digits, with or without the prefix \<open>0x\<close>, and a \<open>u32\<close> is a decimal string with a value
  below \<open>2 ^ 32\<close>. \<open>field_value\<close> and \<open>u32_value\<close> are the values they denote.
\<close>

definition is_field :: "string \<Rightarrow> bool" where
  "is_field s \<longleftrightarrow> hex_value 0 (cleanHex s) \<noteq> None \<and> length (cleanHex s) \<le> 64"

definition field_value :: "string \<Rightarrow> nat" where
  "field_value s = (case hex_value 0 (cleanHex s) of Some v \<Rightarrow> v | None \<Rightarrow> 0)"

definition is_u32 :: "string \<Rightarrow> bool" where
  "is_u32 s \<longleftrightarrow> (case dec_value 0 s of Some v \<Rightarrow> v < 2 ^ 32 | None \<Rightarrow> False)"

definition u32_value :: "string \<Rightarrow> nat" where
  "u32_value s = (case dec_value 0 s of Some v \<Rightarrow> v | None \<Rightarrow> 0)"


section \<open>Facts about the JavaScript operations\<close>

lemma js_rem_nonneg: "0 \<le> a \<Longrightarrow> 0 < b \<Longrightarrow> js_rem a b = a mod b"
  by (cases "a = 0") (simp_all add: js_rem_def)

lemma js_get_nat: "js_get xs (int k) = (if k < length xs then Some (xs ! k) else None)"
  by (simp add: js_get_def)

lemma js_or_Some: "v \<noteq> 0 \<Longrightarrow> js_or (Some v) b = Some v"
  by (simp add: js_or_def)

lemma js_or_else_Some: "v \<noteq> 0 \<Longrightarrow> js_or_else (Some v) b = v"
  by (simp add: js_or_else_def)


section \<open>The cell index\<close>

text \<open>
  Claim C10. For all \<open>x\<close>, \<open>y\<close> in \<open>[0, 8)\<close>, \<open>getCoordinatesFromIndex (getCellIndex x y)\<close> is
  \<open>{x, y}\<close>, and for every index \<open>i\<close> in \<open>[0, 64)\<close>, \<open>getCellIndex\<close> of the coordinates of \<open>i\<close>
  is \<open>i\<close>; both maps stay inside their ranges, so the row-major flattening is a bijection
  between the grid and \<open>[0, 64)\<close>.
\<close>

theorem cell_index_roundtrip:
  "(0 \<le> x \<and> x < 8 \<and> 0 \<le> y \<and> y < 8 \<longrightarrow>
      getCoordinatesFromIndex (getCellIndex x y) = \<lparr>x_of = x, y_of = y\<rparr> \<and>
      0 \<le> getCellIndex x y \<and> getCellIndex x y < 64) \<and>
   (0 \<le> i \<and> i < 64 \<longrightarrow>
      getCellIndex (x_of (getCoordinatesFromIndex i)) (y_of (getCoordinatesFromIndex i)) = i \<and>
      0 \<le> x_of (getCoordinatesFromIndex i) \<and> x_of (getCoordinatesFromIndex i) < 8 \<and>
      0 \<le> y_of (getCoordinatesFromIndex i) \<and> y_of (getCoordinatesFromIndex i) < 8)"
  by (auto simp: getCoordinatesFromIndex_def getCellIndex_def GRID_SIZE_def js_rem_nonneg Let_def)

theorem cell_index_roundtrip_witness:
  "getCoordinatesFromIndex (getCellIndex 3 4) = \<lparr>x_of = 3, y_of = 4\<rparr> \<and>
   getCellIndex (x_of (getCoordinatesFromIndex 28)) (y_of (getCoordinatesFromIndex 28)) = 28"
  using cell_index_roundtrip [of 3 4 28] by simp


section \<open>The split of the prover output\<close>

lemma sh_arith_id: "- (2 ^ 63) \<le> v \<Longrightarrow> v < 2 ^ 63 \<Longrightarrow> sh_arith v = v"
  by (simp add: sh_arith_def)

lemma split_proof_take_drop:
  assumes "k * 32 < 2 ^ 63"
  shows "split_proof k out =
           Inr \<lparr>public_inputs_file = take (k * 32) out, proof_file = drop (k * 32) out\<rparr>"
proof -
  have a: "sh_arith (int k) = int k" using assms by (intro sh_arith_id) auto
  have b: "sh_arith (int k * 32) = int k * 32" using assms by (intro sh_arith_id) auto
  have c: "sh_arith (int k * 32 + 1) = int k * 32 + 1" using assms by (intro sh_arith_id) auto
  show ?thesis
    by (simp add: split_proof_def a b c head_c_def tail_c_from_def nat_mult_distrib nat_add_distrib)
qed

text \<open>
  Claim C2. The combined prover output is split deterministically: with \<open>k\<close> the number of
  public fields, which both scripts compute from the circuit's ABI and never from the
  payload, the public inputs are the first \<open>k * 32\<close> bytes and the proof is all the bytes
  that remain. In particular an output of 2240 bytes with \<open>k = 3\<close> gives 96 bytes of public
  inputs and 2144 bytes of proof. The byte count is computed in 64-bit shell arithmetic,
  so \<open>k * 32\<close> is taken below \<open>2 ^ 63\<close>.
\<close>

theorem prover_output_split:
  "(k * 32 < 2 ^ 63 \<longrightarrow>
      split_proof k out =
        Inr \<lparr>public_inputs_file = take (k * 32) out, proof_file = drop (k * 32) out\<rparr> \<and>
      (count_pub_inputs params = k \<longrightarrow>
         split_step_trap_grid params out =
           Inr \<lparr>public_inputs_file = take (k * 32) out, proof_file = drop (k * 32) out\<rparr>) \<and>
      (pub_count_inline params = Some k \<longrightarrow>
         split_step_inline params out =
           Inr \<lparr>public_inputs_file = take (k * 32) out, proof_file = drop (k * 32) out\<rparr>)) \<and>
   (length out = 2240 \<longrightarrow>
      split_proof 3 out = Inr \<lparr>public_inputs_file = take 96 out, proof_file = drop 96 out\<rparr> \<and>
      length (take 96 out) = 96 \<and> length (drop 96 out) = 2144)"
proof -
  have "split_proof 3 out = Inr \<lparr>public_inputs_file = take 96 out, proof_file = drop 96 out\<rparr>"
    using split_proof_take_drop [of 3 out] by simp
  then show ?thesis
    by (auto simp: split_proof_take_drop split_step_trap_grid_def split_step_inline_def)
qed

theorem prover_output_split_witness:
  "split_proof 3 (replicate 2240 7) =
     Inr \<lparr>public_inputs_file = replicate 96 7, proof_file = replicate 2144 7\<rparr> \<and>
   split_step_trap_grid
     [\<lparr>visibility = ''public'',
       ptype = AbiType ''array'' (Some 3) (Some (AbiType ''field'' None None None)) None\<rparr>]
     (replicate 2240 7) =
     Inr \<lparr>public_inputs_file = replicate 96 7, proof_file = replicate 2144 7\<rparr> \<and>
   split_step_inline
     [\<lparr>visibility = ''public'',
       ptype = AbiType ''array'' (Some 3) (Some (AbiType ''field'' None None None)) None\<rparr>]
     (replicate 2240 7) =
     Inr \<lparr>public_inputs_file = replicate 96 7, proof_file = replicate 2144 7\<rparr>"
  using prover_output_split [of 3 "replicate 2240 7"
      "[\<lparr>visibility = ''public'',
         ptype = AbiType ''array'' (Some 3) (Some (AbiType ''field'' None None None)) None\<rparr>]"]
  by (simp add: count_pub_inputs_def flattenStruct_def)


section \<open>Proof generation and the submission of a move\<close>

lemma toField_bit: "toField 0 = Inr 0" "toField 1 = Inr 1"
  by (simp_all add: toField_def Number_isInteger_def)

text \<open>
  Claim C3. \<open>generateProof\<close> fails fast: whenever the claimed result \<open>isHit\<close> differs from
  \<open>trapValue = 1\<close>, the call throws, no proof is produced, and the proving backend has not
  been called.
\<close>

theorem generateProof_fails_fast:
  "isHit \<noteq> (trapValue = 1) \<Longrightarrow>
     (\<exists>e. outcome (generateProof h reply trapValue moveX moveY isHit) = Inl e) \<and>
     prover_calls (generateProof h reply trapValue moveX moveY isHit) = []"
  by (auto simp: generateProof_def thrown_def)

theorem generateProof_fails_fast_witness:
  "(\<exists>e. outcome (generateProof id (Inr \<lparr>zk_proof = [1], zk_publicInputs = [2]\<rparr>) 0 3 4 True)
          = Inl e) \<and>
   prover_calls (generateProof id (Inr \<lparr>zk_proof = [1], zk_publicInputs = [2]\<rparr>) 0 3 4 True) = []"
  using generateProof_fails_fast
    [of True 0 id "Inr \<lparr>zk_proof = [1], zk_publicInputs = [2]\<rparr>" 3 4]
  by simp

text \<open>
  Claim C4 says that proof generation never puts placeholder bytes in the place of a proof:
  it returns the bytes of the actual prover or passes an error on. It fails. With a valid
  request (no trap at \<open>(3, 4)\<close>, claimed as a miss) and a backend whose circuit artifact
  cannot be loaded, \<open>generateProof\<close> returns 2144 zero bytes as the proof and 128 zero bytes
  as the public inputs, and throws nothing.
\<close>

theorem generateProof_placeholder_counterexample:
  "outcome (generateProof id (Inl (Error ''Failed to load circuit artifact'')) 0 3 4 False)
     = Inr \<lparr>zk_proof = replicate 2144 0, zk_publicInputs = replicate 128 0\<rparr>"
  by (simp add: generateProof_def thrown_def computeTrapCommitment_zk_def toField_bit Let_def)

text \<open>
  Claim C4, amended. \<open>generateProof\<close> of the position-movement circuit throws exactly when
  its validation refuses the request (a trap value other than 0 and 1, a coordinate outside
  \<open>[0, 8)\<close>, a claim that differs from the trap value). On a request that passes, it
  returns the backend's proof and public inputs when the backend delivers them, and the
  placeholder of 2144 and 128 zero bytes when anything in the backend throws.
  \<open>generateProof\<close> of the Merkle-root frontend always returns the fixed bytes
  \<open>00 01 02 03\<close> and \<open>00 00 00 00\<close>, and \<open>handleMakeMove\<close> of the attacker's page submits
  its move with the one-byte placeholders \<open>00\<close> as proof and as public inputs.
\<close>

theorem generateProof_outcomes:
  "(\<not> ((trapValue = 0 \<or> trapValue = 1) \<and> 0 \<le> moveX \<and> moveX < 8 \<and> 0 \<le> moveY \<and> moveY < 8 \<and>
        isHit = (trapValue = 1)) \<longrightarrow>
      (\<exists>e. outcome (generateProof h reply trapValue moveX moveY isHit) = Inl e)) \<and>
   ((trapValue = 0 \<or> trapValue = 1) \<and> 0 \<le> moveX \<and> moveX < 8 \<and> 0 \<le> moveY \<and> moveY < 8 \<and>
      isHit = (trapValue = 1) \<longrightarrow>
      (reply = Inr generated \<longrightarrow>
         outcome (generateProof h reply trapValue moveX moveY isHit) = Inr generated) \<and>
      (reply = Inl err \<longrightarrow>
         outcome (generateProof h reply trapValue moveX moveY isHit) =
           Inr \<lparr>zk_proof = replicate 2144 0, zk_publicInputs = replicate 128 0\<rparr>)) \<and>
   generateProof_frontend v moveX moveY isHit merkleRoot merkleProof =
     \<lparr>zk_proof = [0, 1, 2, 3], zk_publicInputs = [0, 0, 0, 0]\<rparr> \<and>
   (key \<noteq> [] \<longrightarrow>
      handleMakeMove server sessionId (Some (x, y)) (Some key) True =
        Some (makeMove server sessionId x y False [0] [0] key))"
  by (auto simp: generateProof_def thrown_def computeTrapCommitment_zk_def
        toField_bit Let_def generateProof_frontend_def handleMakeMove_def)

theorem generateProof_outcomes_witness:
  "(\<exists>e. outcome (generateProof id (Inl TypeError) 1 9 4 True) = Inl e) \<and>
   outcome (generateProof id (Inr \<lparr>zk_proof = [1, 2], zk_publicInputs = [3]\<rparr>) 1 3 4 True)
     = Inr \<lparr>zk_proof = [1, 2], zk_publicInputs = [3]\<rparr> \<and>
   outcome (generateProof id (Inl TypeError) 1 3 4 True)
     = Inr \<lparr>zk_proof = replicate 2144 0, zk_publicInputs = replicate 128 0\<rparr> \<and>
   handleMakeMove \<lparr>new_Server = None, getAccount_reply = Inr ''account'', new_Contract = None,
         build_transaction = None, prepareTransaction_reply = Inr ''XDR''\<rparr>
       1 (Some (3, 4)) (Some ''GABC'') True =
     Some (makeMove \<lparr>new_Server = None, getAccount_reply = Inr ''account'', new_Contract = None,
         build_transaction = None, prepareTransaction_reply = Inr ''XDR''\<rparr>
             1 3 4 False [0] [0] ''GABC'')"
  using generateProof_outcomes [of 1 9 4 True id "Inl TypeError" _ _ _ _ _ "''GABC''"
      "\<lparr>new_Server = None, getAccount_reply = Inr ''account'', new_Contract = None,
         build_transaction = None, prepareTransaction_reply = Inr ''XDR''\<rparr>" 1 3 4]
    generateProof_outcomes [of 1 3 4 True id "Inr \<lparr>zk_proof = [1, 2], zk_publicInputs = [3]\<rparr>"
      "\<lparr>zk_proof = [1, 2], zk_publicInputs = [3]\<rparr>"]
    generateProof_outcomes [of 1 3 4 True id "Inl TypeError" _ TypeError]
  by simp

text \<open>
  Claim C9 says that \<open>makeMove\<close> rejects coordinates outside \<open>[0, 8)\<close> before the move is
  submitted. It fails for \<open>makeMove\<close> of \<open>app/src/lib/stellar.ts\<close>: with \<open>x = 8\<close>, in an
  environment where the RPC URL and the contract id are configured and the server answers,
  it requests the account, hands the call \<open>make_move(1, 8, 0, ...)\<close> to the server and
  returns the prepared transaction.
\<close>

theorem makeMove_accepts_counterexample:
  "makeMove \<lparr>new_Server = None, getAccount_reply = Inr ''account'', new_Contract = None,
         build_transaction = None, prepareTransaction_reply = Inr ''XDR''\<rparr>
      1 8 0 False [0] [0] ''GABC''
   = \<lparr>move_result = Inr ''XDR'',
      server_requests =
        [GetAccount ''GABC'',
         PrepareTransaction \<lparr>arg_sessionId = 1, arg_x = 8, arg_y = 0, arg_isHit = False,
                              arg_proof = [0], arg_publicInputs = [0]\<rparr>]\<rparr>"
  by (simp add: makeMove_def Number_isInteger_def Let_def)

text \<open>
  Claim C9, amended. \<open>makeMove\<close> of \<open>app/src/lib/stellar.ts\<close> checks that each coordinate is
  an unsigned 32-bit integer, not that it lies in the grid: a coordinate that is not an
  integer in \<open>[0, 4294967295]\<close> is rejected with an error before any request is sent to the
  server. A coordinate in that range, 8 and above included, passes the check: when the
  session id passes too, the server and contract objects and the transaction are built and
  the account is loaded, the requests sent are the one for the account and then
  \<open>prepareTransaction\<close> with the \<open>make_move\<close> call, the coordinates as given, and the result
  is the server's answer to it. \<open>generateProof\<close> of the position-movement circuit has the
  guard \<open>moveX < 0 || moveX >= 8\<close> and the same for \<open>moveY\<close>: a coordinate that meets it makes
  \<open>generateProof\<close> throw before the backend is called.
\<close>

theorem makeMove_coordinate_check:
  "(\<not> (Number_isInteger x \<and> 0 \<le> x \<and> x \<le> 4294967295 \<and>
        Number_isInteger y \<and> 0 \<le> y \<and> y \<le> 4294967295) \<longrightarrow>
      (\<exists>e. move_result (makeMove env sessionId x y isHit prf pub key) = Inl e) \<and>
      server_requests (makeMove env sessionId x y isHit prf pub key) = []) \<and>
   (Number_isInteger sessionId \<and> 0 \<le> sessionId \<and> sessionId \<le> 4294967295 \<and>
    Number_isInteger x \<and> 0 \<le> x \<and> x \<le> 4294967295 \<and>
    Number_isInteger y \<and> 0 \<le> y \<and> y \<le> 4294967295 \<and>
    new_Server env = None \<and> getAccount_reply env = Inr account \<and>
    new_Contract env = None \<and> build_transaction env = None \<longrightarrow>
      server_requests (makeMove env sessionId x y isHit prf pub key) =
        [GetAccount key,
         PrepareTransaction \<lparr>arg_sessionId = sessionId, arg_x = x, arg_y = y, arg_isHit = isHit,
                              arg_proof = prf, arg_publicInputs = pub\<rparr>] \<and>
      move_result (makeMove env sessionId x y isHit prf pub key)
        = prepareTransaction_reply env) \<and>
   (moveX < 0 \<or> moveX \<ge> 8 \<or> moveY < 0 \<or> moveY \<ge> 8 \<longrightarrow>
      (\<exists>e. outcome (generateProof h reply trapValue moveX moveY hit) = Inl e) \<and>
      prover_calls (generateProof h reply trapValue moveX moveY hit) = [])"
  by (auto simp: makeMove_def Let_def generateProof_def thrown_def split: sum.splits)

theorem makeMove_coordinate_check_witness:
  "(\<exists>e. move_result (makeMove \<lparr>new_Server = None, getAccount_reply = Inr ''account'', new_Contract = None,
         build_transaction = None, prepareTransaction_reply = Inr ''XDR''\<rparr>
           1 (- 1) 0 False [0] [0] ''GABC'') = Inl e) \<and>
   server_requests (makeMove \<lparr>new_Server = None, getAccount_reply = Inr ''account'', new_Contract = None,
         build_transaction = None, prepareTransaction_reply = Inr ''XDR''\<rparr>
           1 (- 1) 0 False [0] [0] ''GABC'') = [] \<and>
   server_requests (makeMove \<lparr>new_Server = None, getAccount_reply = Inr ''account'', new_Contract = None,
         build_transaction = None, prepareTransaction_reply = Inr ''XDR''\<rparr>
           1 8 7 False [0] [0] ''GABC'') =
     [GetAccount ''GABC'',
      PrepareTransaction \<lparr>arg_sessionId = 1, arg_x = 8, arg_y = 7, arg_isHit = False,
                           arg_proof = [0], arg_publicInputs = [0]\<rparr>] \<and>
   (\<exists>e. outcome (generateProof id (Inl TypeError) 0 8 7 False) = Inl e)"
  using makeMove_coordinate_check [of "- 1" 0
      "\<lparr>new_Server = None, getAccount_reply = Inr ''account'', new_Contract = None,
         build_transaction = None, prepareTransaction_reply = Inr ''XDR''\<rparr>"
      1 False "[0]" "[0]" "''GABC''" "''account''" 8 7 id "Inl TypeError" 0 False]
    makeMove_coordinate_check [of 8 7
      "\<lparr>new_Server = None, getAccount_reply = Inr ''account'', new_Contract = None,
         build_transaction = None, prepareTransaction_reply = Inr ''XDR''\<rparr>"
      1 False "[0]" "[0]" "''GABC''" "''account''" 8 7 id "Inl TypeError" 0 False]
  by (simp add: Number_isInteger_def)


section \<open>The Merkle tree of the test-data generator\<close>

lemma length_nextLevel: "length (nextLevel h xs) = (length xs + 1) div 2"
  by (induction h xs rule: nextLevel.induct) simp_all

lemma nextLevel_nth:
  "j < (length xs + 1) div 2 \<Longrightarrow>
   nextLevel h xs ! j =
     h (xs ! (2 * j))
       (js_or_else (if 2 * j + 1 < length xs then Some (xs ! (2 * j + 1)) else None) (xs ! (2 * j)))"
proof (induction h xs arbitrary: j rule: nextLevel.induct)
  case (1 h)
  then show ?case by simp
next
  case (2 h left)
  then show ?case by (simp add: poseidonHash2_def js_get_def)
next
  case (3 h left r rest)
  show ?case
  proof (cases j)
    case 0
    then show ?thesis by (simp add: poseidonHash2_def js_get_def)
  next
    case (Suc k)
    with 3 show ?thesis by (simp add: js_get_def nat_add_distrib)
  qed
qed

lemma nextLevel_Nil_iff: "nextLevel h xs = [] \<longleftrightarrow> xs = []"
  by (induction h xs rule: nextLevel.induct) simp_all

lemma last_nextLevel_odd:
  "odd (length xs) \<Longrightarrow> last (nextLevel h xs) = h (last xs) (last xs)"
  by (induction h xs rule: nextLevel.induct)
     (auto simp: poseidonHash2_def js_or_else_def nextLevel_Nil_iff)

lemma length_build_levels: "length (build_levels h n cur) = n"
  by (induction n arbitrary: cur) (simp_all add: Let_def)

lemma build_levels_nth:
  "l < n \<Longrightarrow> (cur # build_levels h n cur) ! Suc l = nextLevel h ((cur # build_levels h n cur) ! l)"
proof (induction n arbitrary: cur l)
  case 0
  then show ?case by simp
next
  case (Suc n)
  show ?case
  proof (cases l)
    case 0
    then show ?thesis by (simp add: Let_def)
  next
    case (Suc k)
    with Suc.prems have "k < n" by simp
    from Suc.IH [OF this, of "nextLevel h cur"] Suc show ?thesis by (simp add: Let_def)
  qed
qed

lemma proof_loop_total:
  "level + n \<le> length tree \<Longrightarrow>
   \<exists>p. proof_loop tree level n c = Inr p \<and> length (indices p) = n \<and> length (siblings p) = n"
proof (induction n arbitrary: level c)
  case 0
  then show ?case by simp
next
  case (Suc n)
  from Suc.prems have lv: "js_get tree (int level) = Some (tree ! level)"
    by (simp add: js_get_nat)
  from Suc.prems have "Suc level + n \<le> length tree" by simp
  from Suc.IH [OF this, of "c div 2"] obtain p where
    "proof_loop tree (Suc level) n (c div 2) = Inr p" "length (indices p) = n" "length (siblings p) = n"
    by blast
  then show ?case by (simp add: lv Let_def)
qed

lemma proof_loop_nth:
  assumes "proof_loop tree level n c = Inr p" "l < n" "0 \<le> c" "level + n \<le> length tree"
  shows "indices p ! l = (c div 2 ^ l) mod 2 \<and>
         siblings p ! l =
           js_or (js_get (tree ! (level + l))
                    (if (c div 2 ^ l) mod 2 = 1 then c div 2 ^ l - 1 else c div 2 ^ l + 1))
                 (js_get (tree ! (level + l)) (c div 2 ^ l))"
  using assms
proof (induction n arbitrary: level c p l)
  case 0
  then show ?case by simp
next
  case (Suc n)
  from Suc.prems have lv: "js_get tree (int level) = Some (tree ! level)"
    by (simp add: js_get_def)
  from Suc.prems have rem: "js_rem c 2 = c mod 2" by (simp add: js_rem_nonneg)
  from Suc.prems(1) obtain p' where
    rec: "proof_loop tree (Suc level) n (c div 2) = Inr p'"
    and p: "p = \<lparr>indices = (if c mod 2 = 1 then 1 else 0) # indices p',
                siblings = js_or (js_get (tree ! level) (if c mod 2 = 1 then c - 1 else c + 1))
                                 (js_get (tree ! level) c) # siblings p'\<rparr>"
    by (auto simp: lv rem Let_def split: sum.splits)
  show ?case
  proof (cases l)
    case 0
    then show ?thesis by (auto simp: p)
  next
    case (Suc k)
    with Suc.prems have "k < n" "0 \<le> c div 2" "Suc level + n \<le> length tree" by simp_all
    from Suc.IH [OF rec this] have
      "indices p' ! k = (c div 2 div 2 ^ k) mod 2 \<and>
       siblings p' ! k =
         js_or (js_get (tree ! (Suc level + k))
                  (if (c div 2 div 2 ^ k) mod 2 = 1 then c div 2 div 2 ^ k - 1 else c div 2 div 2 ^ k + 1))
               (js_get (tree ! (Suc level + k)) (c div 2 div 2 ^ k))" .
    moreover have "c div 2 div 2 ^ k = c div 2 ^ Suc k"
      by (simp add: zdiv_zmult2_eq)
    ultimately show ?thesis using Suc by (simp add: p)
  qed
qed

lemma path_recomputes:
  assumes "length cur = 2 ^ n" "c < 2 ^ n"
    "\<forall>lv \<in> set (butlast (cur # build_levels h n cur)). 0 \<notin> set lv"
    "length pre = level"
  shows "\<exists>p. proof_loop (pre @ cur # build_levels h n cur) level n (int c) = Inr p \<and>
             recompute_path h (cur ! c) (indices p) (siblings p)
               = Some (last (cur # build_levels h n cur) ! 0)"
  using assms
proof (induction n arbitrary: cur c pre level)
  case 0
  then show ?case by simp
next
  case (Suc n)
  let ?nxt = "nextLevel h cur"
  let ?tree = "pre @ cur # build_levels h (Suc n) cur"
  have len_nxt: "length ?nxt = 2 ^ n" using Suc.prems(1) by (simp add: length_nextLevel)
  have c2: "c div 2 < 2 ^ n" using Suc.prems(2) by simp
  have nz_cur: "0 \<notin> set cur" and
    nz_up: "\<forall>lv \<in> set (butlast (?nxt # build_levels h n ?nxt)). 0 \<notin> set lv"
    using Suc.prems(3) by (simp_all add: Let_def)
  have tree_eq: "?tree = (pre @ [cur]) @ ?nxt # build_levels h n ?nxt" by (simp add: Let_def)
  have lenpre: "length (pre @ [cur]) = Suc level" using Suc.prems(4) by simp
  from Suc.IH [OF len_nxt c2 nz_up lenpre] obtain p' where
    rec: "proof_loop ?tree (Suc level) n (int (c div 2)) = Inr p'" and
    up: "recompute_path h (?nxt ! (c div 2)) (indices p') (siblings p')
           = Some (last (?nxt # build_levels h n ?nxt) ! 0)"
    unfolding tree_eq by blast
  have lv: "js_get ?tree (int level) = Some cur"
    using Suc.prems(4) by (simp add: js_get_def nth_append)
  have half: "int c div 2 = int (c div 2)" by simp
  have rem: "js_rem (int c) 2 = int c mod 2" by (simp add: js_rem_nonneg)
  have clen: "c < length cur" using Suc.prems by simp
  have evenlen: "even (length cur)" using Suc.prems(1) by simp
  have j: "c div 2 < (length cur + 1) div 2" using Suc.prems by simp
  have nxt_c: "?nxt ! (c div 2) = h (cur ! (2 * (c div 2))) (cur ! (2 * (c div 2) + 1))"
  proof -
    have in2: "2 * (c div 2) + 1 < length cur" using clen evenlen by presburger
    then have "cur ! (2 * (c div 2) + 1) \<in> set cur" by simp
    with nz_cur have "cur ! (2 * (c div 2) + 1) \<noteq> 0" by metis
    with in2 show ?thesis
      using nextLevel_nth [OF j, of h] by (simp add: js_or_else_Some)
  qed
  have last_eq: "last (cur # build_levels h (Suc n) cur) = last (?nxt # build_levels h n ?nxt)"
    by (simp add: Let_def)
  show ?case
  proof (cases "even c")
    case True
    then have sib_in: "Suc c < length cur" using clen evenlen by presburger
    then have "cur ! Suc c \<in> set cur" by simp
    with nz_cur have nz: "cur ! Suc c \<noteq> 0" by metis
    have sib: "js_get cur (int c + 1) = Some (cur ! Suc c)"
      using sib_in by (simp add: js_get_def nat_add_distrib)
    have m: "int c mod 2 \<noteq> 1" using True by presburger
    have c_eq: "2 * (c div 2) = c" using True by simp
    have "proof_loop ?tree level (Suc n) (int c) =
            Inr \<lparr>indices = 0 # indices p', siblings = Some (cur ! Suc c) # siblings p'\<rparr>"
      using rec lv m nz by (simp add: rem half sib js_or_Some Let_def del: build_levels.simps)
    moreover have "recompute_path h (cur ! c) (0 # indices p') (Some (cur ! Suc c) # siblings p')
        = Some (last (cur # build_levels h (Suc n) cur) ! 0)"
      using up nxt_c c_eq unfolding last_eq by (simp del: build_levels.simps last.simps)
    ultimately show ?thesis by (simp del: build_levels.simps last.simps)
  next
    case False
    then have cpos: "0 < c" by (cases c) simp_all
    have sib_in: "c - 1 < length cur" using clen by simp
    then have "cur ! (c - 1) \<in> set cur" by simp
    with nz_cur have nz: "cur ! (c - 1) \<noteq> 0" by metis
    have sib: "js_get cur (int c - 1) = Some (cur ! (c - 1))"
      using sib_in cpos by (simp add: js_get_def nat_diff_distrib)
    have m: "int c mod 2 = 1" using False by presburger
    have c_eq: "2 * (c div 2) = c - 1" "2 * (c div 2) + 1 = c" using False by presburger+
    have "proof_loop ?tree level (Suc n) (int c) =
            Inr \<lparr>indices = 1 # indices p', siblings = Some (cur ! (c - 1)) # siblings p'\<rparr>"
      using rec lv m nz by (simp add: rem half sib js_or_Some Let_def del: build_levels.simps)
    moreover have "recompute_path h (cur ! c) (1 # indices p') (Some (cur ! (c - 1)) # siblings p')
        = Some (last (cur # build_levels h (Suc n) cur) ! 0)"
      using up nxt_c c_eq unfolding last_eq by (simp del: build_levels.simps last.simps)
    ultimately show ?thesis by (simp del: build_levels.simps last.simps)
  qed
qed

lemma length_last_level:
  "length cur = 2 ^ n \<Longrightarrow> length (last (cur # build_levels h n cur)) = 1"
proof (induction n arbitrary: cur)
  case 0
  then show ?case by simp
next
  case (Suc n)
  then have "length (nextLevel h cur) = 2 ^ n" by (simp add: length_nextLevel)
  from Suc.IH [OF this] show ?case by (simp add: Let_def)
qed

lemma leaves_nth:
  "i < length G \<Longrightarrow>
   map (\<lambda>(trap, idx). computeTrapCommitment p1 trap (int idx)) (zip G [0..<length G]) ! i
     = p1 (G ! i)"
  by (simp add: computeTrapCommitment_def)

lemma tree_root_last:
  "tree \<noteq> [] \<Longrightarrow> last tree \<noteq> [] \<Longrightarrow> tree_root tree = Some (last tree ! 0)"
  by (cases tree rule: rev_cases) (simp_all add: tree_root_def js_get_def nth_append)

text \<open>
  Claim C1. For every grid \<open>G\<close> of 64 cells and every leaf index \<open>i\<close> below 64, recomputing
  the path from the leaf commitment of \<open>G[i]\<close> with the siblings and path bits that
  \<open>generateMerkleProof (buildMerkleTree G) i\<close> returns yields the root at the top level of
  \<open>buildMerkleTree G\<close>. The builder and the proof generator read a missing node with \<open>||\<close>,
  which also takes the field element \<open>0n\<close> for a missing one, so the statement is for trees
  in which no node below the root is \<open>0n\<close>.
\<close>

theorem merkle_roundtrip:
  assumes "length G = 64" "i < 64"
    "\<forall>lv \<in> set (butlast (buildMerkleTree p1 p2 G)). 0 \<notin> set lv"
  shows "\<exists>p r. generateMerkleProof (buildMerkleTree p1 p2 G) (int i) = Inr p \<and>
               tree_root (buildMerkleTree p1 p2 G) = Some r \<and>
               recompute_path p2 (computeTrapCommitment p1 (G ! i) (int i)) (indices p) (siblings p)
                 = Some r"
proof -
  define leaves where
    "leaves = map (\<lambda>(trap, idx). computeTrapCommitment p1 trap (int idx)) (zip G [0..<length G])"
  have tree: "buildMerkleTree p1 p2 G = leaves # build_levels p2 6 leaves"
    by (simp add: buildMerkleTree_def leaves_def MERKLE_TREE_DEPTH_def Let_def)
  have len: "length leaves = 2 ^ 6" using assms(1) by (simp add: leaves_def)
  have i: "i < 2 ^ 6" using assms(2) by simp
  have nz: "\<forall>lv \<in> set (butlast (leaves # build_levels p2 6 leaves)). 0 \<notin> set lv"
    using assms(3) unfolding tree .
  from path_recomputes [OF len i nz, of "[]" 0] obtain p where
    p: "proof_loop (leaves # build_levels p2 6 leaves) 0 6 (int i) = Inr p"
       "recompute_path p2 (leaves ! i) (indices p) (siblings p)
          = Some (last (leaves # build_levels p2 6 leaves) ! 0)"
    by auto
  have leaf: "leaves ! i = computeTrapCommitment p1 (G ! i) (int i)"
    using assms(1,2) by (simp add: leaves_def leaves_nth computeTrapCommitment_def)
  have "length (last (leaves # build_levels p2 6 leaves)) = 1"
    by (rule length_last_level [OF len])
  then have "last (leaves # build_levels p2 6 leaves) \<noteq> []" by auto
  then have r: "tree_root (leaves # build_levels p2 6 leaves)
                  = Some (last (leaves # build_levels p2 6 leaves) ! 0)"
    by (intro tree_root_last) simp_all
  show ?thesis
    unfolding tree generateMerkleProof_def MERKLE_TREE_DEPTH_def
    using p r leaf by (simp del: build_levels.simps last.simps)
qed

theorem merkle_roundtrip_witness:
  "\<exists>p r. generateMerkleProof (buildMerkleTree (\<lambda>v. v + 1) (\<lambda>a b. a + b + 1) ((replicate 64 0)[0 := 1])) (int 10) = Inr p \<and>
         tree_root (buildMerkleTree (\<lambda>v. v + 1) (\<lambda>a b. a + b + 1) ((replicate 64 0)[0 := 1])) = Some r \<and>
         recompute_path (\<lambda>a b. a + b + 1)
           (computeTrapCommitment (\<lambda>v. v + 1) ((replicate 64 0)[0 := 1] ! 10) (int 10)) (indices p) (siblings p)
             = Some r"
proof -
  have nz: "\<forall>lv \<in> set (butlast (buildMerkleTree (\<lambda>v. v + 1) (\<lambda>a b. a + b + 1) ((replicate 64 0)[0 := 1]))). 0 \<notin> set lv"
    by code_simp
  show ?thesis
    by (rule merkle_roundtrip [OF _ _ nz]) simp_all
qed


section \<open>The frontend's tree and the proof generators\<close>

lemma proof_loop_outside:
  assumes "length cur = 2 ^ n" "2 ^ n \<le> c" "length pre = level"
  shows "\<exists>bits. proof_loop (pre @ cur # build_levels h n cur) level n c
           = Inr \<lparr>indices = bits, siblings = replicate n None\<rparr> \<and> length bits = n"
  using assms
proof (induction n arbitrary: cur c pre level)
  case 0
  then show ?case by simp
next
  case (Suc n)
  let ?nxt = "nextLevel h cur"
  let ?tree = "pre @ cur # build_levels h (Suc n) cur"
  have len_nxt: "length ?nxt = 2 ^ n" using Suc.prems(1) by (simp add: length_nextLevel)
  have c2: "2 ^ n \<le> c div 2" using Suc.prems(2) by simp
  have tree_eq: "?tree = (pre @ [cur]) @ ?nxt # build_levels h n ?nxt" by (simp add: Let_def)
  have lenpre: "length (pre @ [cur]) = Suc level" using Suc.prems(3) by simp
  from Suc.IH [OF len_nxt c2 lenpre] obtain bits where
    rec: "proof_loop ?tree (Suc level) n (c div 2) = Inr \<lparr>indices = bits, siblings = replicate n None\<rparr>"
    and lb: "length bits = n"
    unfolding tree_eq by blast
  have lv: "js_get ?tree (int level) = Some cur"
    using Suc.prems(3) by (simp add: js_get_def nth_append)
  have pw: "(1::int) \<le> 2 ^ Suc n" by (rule one_le_power) simp
  have lc: "int (length cur) = 2 ^ Suc n" using Suc.prems(1) by simp
  have big: "int (length cur) \<le> c" using lc Suc.prems(2) by linarith
  have none: "js_get cur c = None" "js_get cur (c + 1) = None"
    using big by (simp_all add: js_get_def)
  have odd_none: "js_get cur (c - 1) = None" if "js_rem c 2 = 1"
  proof -
    have "0 \<le> c" using pw Suc.prems(2) by linarith
    with that have "c mod 2 = 1" by (simp add: js_rem_nonneg)
    moreover have "(2::int) ^ Suc n mod 2 = 0" by simp
    ultimately have "c \<noteq> 2 ^ Suc n" by auto
    with Suc.prems(2) lc have "int (length cur) \<le> c - 1" by linarith
    then show ?thesis by (simp add: js_get_def)
  qed
  show ?case
    using rec lv lb by (auto simp: none odd_none js_or_def Let_def simp del: build_levels.simps)
qed

lemma last_nextLevel_utils_odd:
  "odd (length xs) \<Longrightarrow> last (nextLevel_utils xs) = hash_pair (last xs) (last xs)"
proof (induction xs rule: nextLevel_utils.induct)
  case (3 left right rest)
  then have "rest \<noteq> []" by auto
  then have "nextLevel_utils rest \<noteq> []"
    using length_nextLevel_utils [of rest] by (cases rest) auto
  with 3 \<open>rest \<noteq> []\<close> show ?case by simp
qed simp_all

lemma build_while_chain:
  assumes "t \<noteq> []" "last t = cur"
    "\<forall>l. Suc l < length t \<longrightarrow> t ! Suc l = nextLevel_utils (t ! l)"
  shows "(\<forall>l. Suc l < length (fst (build_while t cur)) \<longrightarrow>
            fst (build_while t cur) ! Suc l = nextLevel_utils (fst (build_while t cur) ! l)) \<and>
         fst (build_while t cur) ! 0 = t ! 0 \<and>
         fst (build_while t cur) \<noteq> [] \<and>
         snd (build_while t cur) = last (fst (build_while t cur))"
  using assms
proof (induction t cur rule: build_while.induct)
  case (1 t cur)
  show ?case
  proof (cases "length cur > 1")
    case False
    then show ?thesis using "1.prems" by (simp add: build_while.simps [of t cur])
  next
    case True
    let ?next = "nextLevel_utils cur"
    have a: "t @ [?next] \<noteq> []" by simp
    have b: "last (t @ [?next]) = ?next" by simp
    have c: "\<forall>l. Suc l < length (t @ [?next]) \<longrightarrow>
               (t @ [?next]) ! Suc l = nextLevel_utils ((t @ [?next]) ! l)"
    proof (intro allI impI)
      fix l assume l: "Suc l < length (t @ [?next])"
      show "(t @ [?next]) ! Suc l = nextLevel_utils ((t @ [?next]) ! l)"
      proof (cases "Suc l < length t")
        case True
        with "1.prems"(3) show ?thesis by (simp add: nth_append)
      next
        case False
        with l have e: "Suc l = length t" by simp
        then have "length t = Suc l" by simp
        then have "t ! l = last t" using "1.prems"(1) by (simp add: last_conv_nth)
        with e "1.prems"(2) show ?thesis by (simp add: nth_append)
      qed
    qed
    from "1.IH" [OF True refl a b c] True "1.prems"(1) show ?thesis
      by (simp add: build_while.simps [of t cur] Let_def nth_append)
  qed
qed

lemma proof_loop_utils_length:
  "length (indices_utils (proof_loop_utils t c)) = length t - 1 \<and>
   length (siblings_utils (proof_loop_utils t c)) = length t - 1"
  by (induction t c rule: proof_loop_utils.induct) (simp_all add: Let_def)

lemma proof_loop_utils_nth:
  assumes "0 \<le> c" "l < length t - 1"
  shows "indices_utils (proof_loop_utils t c) ! l = (c div 2 ^ l) mod 2 \<and>
         siblings_utils (proof_loop_utils t c) ! l =
           (if (if (c div 2 ^ l) mod 2 = 1 then c div 2 ^ l - 1 else c div 2 ^ l + 1)
                 < int (length (t ! l))
            then js_get (t ! l) (if (c div 2 ^ l) mod 2 = 1 then c div 2 ^ l - 1 else c div 2 ^ l + 1)
            else js_get (t ! l) (c div 2 ^ l))"
  using assms
proof (induction t c arbitrary: l rule: proof_loop_utils.induct)
  case (1 nodes upper levels c)
  have rem: "js_rem c 2 = c mod 2" using "1.prems" by (simp add: js_rem_nonneg)
  show ?case
  proof (cases l)
    case 0
    then show ?thesis by (auto simp: rem Let_def)
  next
    case (Suc k)
    with "1.prems" have "0 \<le> c div 2" "k < length (upper # levels) - 1" by simp_all
    from "1.IH" [OF refl refl refl refl this]
    have ih: "indices_utils (proof_loop_utils (upper # levels) (c div 2)) ! k = (c div 2 div 2 ^ k) mod 2 \<and>
         siblings_utils (proof_loop_utils (upper # levels) (c div 2)) ! k =
           (if (if (c div 2 div 2 ^ k) mod 2 = 1 then c div 2 div 2 ^ k - 1 else c div 2 div 2 ^ k + 1)
                 < int (length ((upper # levels) ! k))
            then js_get ((upper # levels) ! k) (if (c div 2 div 2 ^ k) mod 2 = 1 then c div 2 div 2 ^ k - 1 else c div 2 div 2 ^ k + 1)
            else js_get ((upper # levels) ! k) (c div 2 div 2 ^ k))" .
    have e: "c div 2 div 2 ^ k = c div 2 ^ Suc k" by (simp add: zdiv_zmult2_eq)
    show ?thesis using ih unfolding e Suc by (simp add: Let_def)
  qed
qed simp_all

lemma generateMerkleProof_total:
  "6 \<le> length tree \<Longrightarrow>
   \<exists>p. generateMerkleProof tree leafIndex = Inr p \<and> length (indices p) = 6 \<and> length (siblings p) = 6"
  using proof_loop_total [of 0 6 tree leafIndex]
  by (simp add: generateMerkleProof_def MERKLE_TREE_DEPTH_def)

lemma buildMerkleTree_levels:
  "buildMerkleTree p1 p2 G =
     map (\<lambda>(trap, idx). computeTrapCommitment p1 trap (int idx)) (zip G [0..<length G]) #
     build_levels p2 6 (map (\<lambda>(trap, idx). computeTrapCommitment p1 trap (int idx)) (zip G [0..<length G]))"
  by (simp add: buildMerkleTree_def MERKLE_TREE_DEPTH_def Let_def)

lemma generateMerkleProof_outside:
  assumes "length G = 64" "64 \<le> leafIndex"
  shows "\<exists>bits. generateMerkleProof (buildMerkleTree p1 p2 G) leafIndex
           = Inr \<lparr>indices = bits, siblings = replicate 6 None\<rparr>"
proof -
  let ?leaves = "map (\<lambda>(trap, idx). computeTrapCommitment p1 trap (int idx)) (zip G [0..<length G])"
  have len: "length ?leaves = 2 ^ 6" using assms(1) by simp
  have c: "2 ^ 6 \<le> leafIndex" using assms(2) by simp
  from proof_loop_outside [OF len c, of "[]" 0 p2] show ?thesis
    unfolding buildMerkleTree_levels generateMerkleProof_def MERKLE_TREE_DEPTH_def
    by auto
qed

lemma buildMerkleTree_chain:
  "Suc l < length (buildMerkleTree p1 h G) \<Longrightarrow>
   buildMerkleTree p1 h G ! Suc l = nextLevel h (buildMerkleTree p1 h G ! l)"
  unfolding buildMerkleTree_levels
  by (intro build_levels_nth) (simp add: length_build_levels)

lemma length_buildMerkleTree: "length (buildMerkleTree p1 h G) = 7"
  by (simp add: buildMerkleTree_levels length_build_levels del: build_levels.simps)

lemma buildMerkleTree_utils_tree:
  assumes "length vs = 64"
  shows "\<exists>t. buildMerkleTree_utils vs = Inr t \<and>
             tree_utils t ! 0 = map (\<lambda>(v, index). hashTrapValue v (int index)) (zip vs [0..<length vs]) \<and>
             (\<forall>l. Suc l < length (tree_utils t) \<longrightarrow>
                  tree_utils t ! Suc l = nextLevel_utils (tree_utils t ! l))"
proof -
  let ?leaves = "map (\<lambda>(v, index). hashTrapValue v (int index)) (zip vs [0..<length vs])"
  have "[?leaves] \<noteq> []" "last [?leaves] = ?leaves"
    "\<forall>l. Suc l < length [?leaves] \<longrightarrow> [?leaves] ! Suc l = nextLevel_utils ([?leaves] ! l)"
    by simp_all
  from build_while_chain [OF this] show ?thesis
    using assms
    by (simp add: buildMerkleTree_utils_def GRID_SIZE_def Let_def split_beta)
qed

lemma generateMerkleProof_nth:
  assumes "0 \<le> i" "6 \<le> length tr" "k < 6"
  shows "\<exists>p. generateMerkleProof tr i = Inr p \<and>
             indices p ! k = (i div 2 ^ k) mod 2 \<and>
             siblings p ! k =
               js_or (js_get (tr ! k)
                        (if (i div 2 ^ k) mod 2 = 1 then i div 2 ^ k - 1 else i div 2 ^ k + 1))
                     (js_get (tr ! k) (i div 2 ^ k))"
proof -
  from generateMerkleProof_total [OF assms(2), of i] obtain p where
    p: "generateMerkleProof tr i = Inr p" by blast
  then have "proof_loop tr 0 6 i = Inr p"
    by (simp add: generateMerkleProof_def MERKLE_TREE_DEPTH_def)
  from proof_loop_nth [OF this assms(3) assms(1)] assms(2) p show ?thesis by simp
qed

lemma sibling_recorded:
  assumes "0 \<le> c"
  shows "((if c mod 2 = 1 then c - 1 else c + 1) < int (length nodes) \<and>
            nodes ! nat (if c mod 2 = 1 then c - 1 else c + 1) \<noteq> 0 \<longrightarrow>
          js_or (js_get nodes (if c mod 2 = 1 then c - 1 else c + 1)) (js_get nodes c)
            = Some (nodes ! nat (if c mod 2 = 1 then c - 1 else c + 1))) \<and>
         (int (length nodes) \<le> (if c mod 2 = 1 then c - 1 else c + 1) \<longrightarrow>
          js_or (js_get nodes (if c mod 2 = 1 then c - 1 else c + 1)) (js_get nodes c)
            = js_get nodes c)"
proof -
  have "0 \<le> (if c mod 2 = 1 then c - 1 else c + 1)" using assms by presburger
  then show ?thesis by (simp add: js_get_def js_or_def)
qed

lemma sibling_recorded_utils:
  assumes "0 \<le> c"
  shows "(if (if c mod 2 = 1 then c - 1 else c + 1) < int (length nodes)
          then js_get nodes (if c mod 2 = 1 then c - 1 else c + 1)
          else js_get nodes c) =
         (if (if c mod 2 = 1 then c - 1 else c + 1) < int (length nodes)
          then Some (nodes ! nat (if c mod 2 = 1 then c - 1 else c + 1))
          else js_get nodes c)"
proof -
  have "0 \<le> (if c mod 2 = 1 then c - 1 else c + 1)" using assms by presburger
  then show ?thesis by (simp add: js_get_def)
qed


section \<open>Leaf indices outside the tree\<close>

text \<open>
  Claim C7 says that a leaf index outside \<open>[0, 64)\<close> makes the generation of a Merkle proof
  fail with an error. It fails for both generators: on a tree with 64 leaves and the leaf
  index 64 each of them returns a proof object, with six path bits and six sibling entries
  that are \<open>undefined\<close>.
\<close>

theorem merkle_proof_out_of_range_counterexample:
  "generateMerkleProof
     [replicate 64 1, replicate 32 2, replicate 16 3, replicate 8 4, replicate 4 5, replicate 2 6, [7]]
     64
   = Inr \<lparr>indices = [0, 0, 0, 0, 0, 0], siblings = [None, None, None, None, None, None]\<rparr> \<and>
   generateMerkleProof_utils
     [replicate 64 ''a'', replicate 32 ''b'', replicate 16 ''c'', replicate 8 ''d'', replicate 4 ''e'',
      replicate 2 ''f'', [''g'']]
     64
   = \<lparr>indices_utils = [0, 0, 0, 0, 0, 0],
      siblings_utils = [None, None, None, None, None, None]\<rparr>"
  by code_simp

text \<open>
  Claim C7, amended. Neither \<open>generateMerkleProof\<close> checks the leaf index. On a tree of at
  least six levels the one of the test-data generator returns, for every integer leaf index,
  a proof object with six path bits and six sibling entries; for a leaf index of 64 or more
  on the tree of a 64-cell grid all six sibling entries are \<open>undefined\<close>. The one of the
  frontend returns, for every tree and every integer index, one path bit and one sibling
  entry per level below the top.
\<close>

theorem merkle_proof_no_range_check:
  "(6 \<le> length tree \<longrightarrow>
      (\<exists>p. generateMerkleProof tree leafIndex = Inr p \<and>
           length (indices p) = 6 \<and> length (siblings p) = 6)) \<and>
   (length G = 64 \<and> 64 \<le> leafIndex \<longrightarrow>
      (\<exists>bits. generateMerkleProof (buildMerkleTree p1 p2 G) leafIndex
         = Inr \<lparr>indices = bits, siblings = replicate 6 None\<rparr>)) \<and>
   length (indices_utils (generateMerkleProof_utils t leafIndex)) = length t - 1 \<and>
   length (siblings_utils (generateMerkleProof_utils t leafIndex)) = length t - 1"
proof -
  have a: "6 \<le> length tree \<longrightarrow>
      (\<exists>p. generateMerkleProof tree leafIndex = Inr p \<and>
           length (indices p) = 6 \<and> length (siblings p) = 6)"
    using generateMerkleProof_total by blast
  have b: "length G = 64 \<and> 64 \<le> leafIndex \<longrightarrow>
      (\<exists>bits. generateMerkleProof (buildMerkleTree p1 p2 G) leafIndex
         = Inr \<lparr>indices = bits, siblings = replicate 6 None\<rparr>)"
    using generateMerkleProof_outside by blast
  have c: "length (indices_utils (generateMerkleProof_utils t leafIndex)) = length t - 1"
    "length (siblings_utils (generateMerkleProof_utils t leafIndex)) = length t - 1"
    by (simp_all add: generateMerkleProof_utils_def proof_loop_utils_length)
  from a b c show ?thesis by blast
qed

theorem merkle_proof_no_range_check_witness:
  "(\<exists>p. generateMerkleProof [[1, 2], [3], [4], [5], [6], [7], [8]] (- 3) = Inr p \<and>
        length (indices p) = 6 \<and> length (siblings p) = 6) \<and>
   (\<exists>bits. generateMerkleProof (buildMerkleTree (\<lambda>v. v + 1) (\<lambda>a b. a + b + 1) (replicate 64 0)) 70
      = Inr \<lparr>indices = bits, siblings = replicate 6 None\<rparr>)"
  using merkle_proof_no_range_check
      [of "[[1, 2], [3], [4], [5], [6], [7], [8]]" "- 3" "replicate 64 0"]
    merkle_proof_no_range_check
      [of _ 70 "replicate 64 0" "\<lambda>v. v + 1" "\<lambda>a b. a + b + 1"]
  by simp


section \<open>Pairing and path bits\<close>

text \<open>
  Claim C6. In both builders a level of \<open>n\<close> nodes gives a level of \<open>(n + 1) div 2\<close> nodes, so
  no node is dropped, and when \<open>n\<close> is odd the last node of the new level is the hash of the
  last node paired with itself; every level of a built tree arises from the level below in
  this way. For every leaf index \<open>i \<ge> 0\<close> and every level \<open>k\<close>, both proof generators record
  the direction bit \<open>(i div 2 ^ k) mod 2\<close>, the index being halved at each step, and the
  sibling of the current node; where the level has no node at the sibling's index they
  record the current node itself. (The test-data generator reads the sibling with \<open>||\<close>:
  the statement is for a sibling other than \<open>0n\<close>.)
\<close>

theorem duplicate_self_and_path_bits:
  "length (nextLevel h xs) = (length xs + 1) div 2 \<and>
   (odd (length xs) \<longrightarrow> last (nextLevel h xs) = h (last xs) (last xs)) \<and>
   length (nextLevel_utils ys) = (length ys + 1) div 2 \<and>
   (odd (length ys) \<longrightarrow> last (nextLevel_utils ys) = hash_pair (last ys) (last ys)) \<and>
   (Suc l < length (buildMerkleTree p1 h G) \<longrightarrow>
      buildMerkleTree p1 h G ! Suc l = nextLevel h (buildMerkleTree p1 h G ! l)) \<and>
   (length vs = 64 \<longrightarrow>
      (\<exists>t. buildMerkleTree_utils vs = Inr t \<and>
           (\<forall>l. Suc l < length (tree_utils t) \<longrightarrow>
                tree_utils t ! Suc l = nextLevel_utils (tree_utils t ! l)))) \<and>
   (0 \<le> i \<and> 6 \<le> length tr \<and> k < 6 \<longrightarrow>
      (\<exists>p. generateMerkleProof tr i = Inr p \<and>
           indices p ! k = (i div 2 ^ k) mod 2 \<and>
           (let cur = i div 2 ^ k;
                sib = (if cur mod 2 = 1 then cur - 1 else cur + 1)
            in (sib < int (length (tr ! k)) \<and> tr ! k ! nat sib \<noteq> 0 \<longrightarrow>
                  siblings p ! k = Some (tr ! k ! nat sib)) \<and>
               (int (length (tr ! k)) \<le> sib \<longrightarrow> siblings p ! k = js_get (tr ! k) cur)))) \<and>
   (0 \<le> i \<and> k < length ts - 1 \<longrightarrow>
      indices_utils (generateMerkleProof_utils ts i) ! k = (i div 2 ^ k) mod 2 \<and>
      (let cur = i div 2 ^ k;
           sib = (if cur mod 2 = 1 then cur - 1 else cur + 1)
       in siblings_utils (generateMerkleProof_utils ts i) ! k =
            (if sib < int (length (ts ! k)) then Some (ts ! k ! nat sib)
             else js_get (ts ! k) cur)))"
proof -
  have a: "length vs = 64 \<longrightarrow>
      (\<exists>t. buildMerkleTree_utils vs = Inr t \<and>
           (\<forall>l. Suc l < length (tree_utils t) \<longrightarrow>
                tree_utils t ! Suc l = nextLevel_utils (tree_utils t ! l)))"
    using buildMerkleTree_utils_tree [of vs] by blast
  have b: "0 \<le> i \<and> 6 \<le> length tr \<and> k < 6 \<longrightarrow>
      (\<exists>p. generateMerkleProof tr i = Inr p \<and>
           indices p ! k = (i div 2 ^ k) mod 2 \<and>
           (let cur = i div 2 ^ k;
                sib = (if cur mod 2 = 1 then cur - 1 else cur + 1)
            in (sib < int (length (tr ! k)) \<and> tr ! k ! nat sib \<noteq> 0 \<longrightarrow>
                  siblings p ! k = Some (tr ! k ! nat sib)) \<and>
               (int (length (tr ! k)) \<le> sib \<longrightarrow> siblings p ! k = js_get (tr ! k) cur)))"
  proof (intro impI)
    assume h: "0 \<le> i \<and> 6 \<le> length tr \<and> k < 6"
    then have c0: "0 \<le> i div 2 ^ k" by (simp add: pos_imp_zdiv_nonneg_iff)
    from h generateMerkleProof_nth [of i tr k] obtain p where
      p: "generateMerkleProof tr i = Inr p" "indices p ! k = (i div 2 ^ k) mod 2"
         "siblings p ! k =
               js_or (js_get (tr ! k)
                        (if (i div 2 ^ k) mod 2 = 1 then i div 2 ^ k - 1 else i div 2 ^ k + 1))
                     (js_get (tr ! k) (i div 2 ^ k))"
      by blast
    show "\<exists>p. generateMerkleProof tr i = Inr p \<and>
           indices p ! k = (i div 2 ^ k) mod 2 \<and>
           (let cur = i div 2 ^ k;
                sib = (if cur mod 2 = 1 then cur - 1 else cur + 1)
            in (sib < int (length (tr ! k)) \<and> tr ! k ! nat sib \<noteq> 0 \<longrightarrow>
                  siblings p ! k = Some (tr ! k ! nat sib)) \<and>
               (int (length (tr ! k)) \<le> sib \<longrightarrow> siblings p ! k = js_get (tr ! k) cur))"
      using p sibling_recorded [OF c0, of "tr ! k"] unfolding Let_def by metis
  qed
  have c: "0 \<le> i \<and> k < length ts - 1 \<longrightarrow>
      indices_utils (generateMerkleProof_utils ts i) ! k = (i div 2 ^ k) mod 2 \<and>
      (let cur = i div 2 ^ k;
           sib = (if cur mod 2 = 1 then cur - 1 else cur + 1)
       in siblings_utils (generateMerkleProof_utils ts i) ! k =
            (if sib < int (length (ts ! k)) then Some (ts ! k ! nat sib)
             else js_get (ts ! k) cur))"
  proof (intro impI)
    assume h: "0 \<le> i \<and> k < length ts - 1"
    then have c0: "0 \<le> i div 2 ^ k" by (simp add: pos_imp_zdiv_nonneg_iff)
    from h proof_loop_utils_nth [of i k ts] show
      "indices_utils (generateMerkleProof_utils ts i) ! k = (i div 2 ^ k) mod 2 \<and>
      (let cur = i div 2 ^ k;
           sib = (if cur mod 2 = 1 then cur - 1 else cur + 1)
       in siblings_utils (generateMerkleProof_utils ts i) ! k =
            (if sib < int (length (ts ! k)) then Some (ts ! k ! nat sib)
             else js_get (ts ! k) cur))"
      unfolding Let_def generateMerkleProof_utils_def
      using sibling_recorded_utils [OF c0, of "ts ! k"] by simp
  qed
  have d: "Suc l < length (buildMerkleTree p1 h G) \<longrightarrow>
      buildMerkleTree p1 h G ! Suc l = nextLevel h (buildMerkleTree p1 h G ! l)"
    using buildMerkleTree_chain by blast
  show ?thesis
    using a b c d length_nextLevel [of h xs] last_nextLevel_odd [of xs h]
      length_nextLevel_utils [of ys] last_nextLevel_utils_odd [of ys]
    by blast
qed

theorem duplicate_self_and_path_bits_witness:
  "last (nextLevel (\<lambda>a b. a + b + 1) [1, 2, 3]) = 3 + 3 + 1 \<and>
   last (nextLevel_utils [''a'', ''b'', ''c'']) = hash_pair ''c'' ''c'' \<and>
   buildMerkleTree (\<lambda>v. v + 1) (\<lambda>a b. a + b + 1) [0, 1, 0] ! Suc 0
     = nextLevel (\<lambda>a b. a + b + 1) (buildMerkleTree (\<lambda>v. v + 1) (\<lambda>a b. a + b + 1) [0, 1, 0] ! 0) \<and>
   (\<exists>t. buildMerkleTree_utils (replicate 64 0) = Inr t \<and>
        (\<forall>l. Suc l < length (tree_utils t) \<longrightarrow>
             tree_utils t ! Suc l = nextLevel_utils (tree_utils t ! l))) \<and>
   (\<exists>p. generateMerkleProof [[1, 2, 3], [4, 5], [6], [7], [8], [9], [10]] 2 = Inr p \<and>
        indices p ! 1 = 1 \<and> siblings p ! 1 = Some 4) \<and>
   indices_utils (generateMerkleProof_utils [[''a'', ''b'', ''c''], [''d'', ''e''], [''f'']] 2) ! 0 = 0 \<and>
   siblings_utils (generateMerkleProof_utils [[''a'', ''b'', ''c''], [''d'', ''e''], [''f'']] 2) ! 0
     = Some ''c''"
  using duplicate_self_and_path_bits
    [of "\<lambda>a b. a + b + 1" "[1, 2, 3]" "[''a'', ''b'', ''c'']" 0 "\<lambda>v. v + 1" "[0, 1, 0]"
        "replicate 64 0" 2 "[[1, 2, 3], [4, 5], [6], [7], [8], [9], [10]]" 1]
    duplicate_self_and_path_bits
    [of "\<lambda>a b. a + b + 1" "[1, 2, 3]" "[''a'', ''b'', ''c'']" 0 "\<lambda>v. v + 1" "[0, 1, 0]"
        "replicate 64 0" 2 _ 0 "[[''a'', ''b'', ''c''], [''d'', ''e''], [''f'']]"]
  by (simp add: length_buildMerkleTree js_get_def Let_def)


section \<open>What a leaf commitment binds\<close>

lemma dec_digit_digit_char: "d < 10 \<Longrightarrow> dec_digit (digit_char d) = Some d"
  by (simp add: dec_digit_def digit_char_def Let_def)

lemma dec_value_snoc:
  "dec_value acc (xs @ [c]) =
     (case dec_value acc xs of
        None \<Rightarrow> None
      | Some a \<Rightarrow> (case dec_digit c of None \<Rightarrow> None | Some d \<Rightarrow> Some (10 * a + d)))"
  by (induction xs arbitrary: acc) (simp_all split: option.splits)

lemma dec_value_show_nat: "dec_value 0 (show_nat n) = Some n"
proof (induction n rule: show_nat.induct)
  case (1 n)
  show ?case
  proof (cases "n < 10")
    case True
    then show ?thesis by (simp add: show_nat.simps [of n] dec_digit_digit_char)
  next
    case False
    with 1 have "dec_value 0 (show_nat (n div 10)) = Some (n div 10)" by simp
    with False show ?thesis
      by (simp add: show_nat.simps [of n] dec_value_snoc dec_digit_digit_char)
  qed
qed

lemma show_nat_inj: "show_nat a = show_nat b \<Longrightarrow> a = b"
  by (metis dec_value_show_nat option.inject)

lemma hashTrapValue_index:
  "0 \<le> a \<Longrightarrow> 0 \<le> b \<Longrightarrow> hashTrapValue v a = hashTrapValue v b \<longleftrightarrow> a = b"
  by (auto simp: hashTrapValue_def show_int_def dest!: show_nat_inj)

text \<open>
  Claim C5 says that every commitment builder hashes only the value of the cell, so that
  equal values give equal leaves whatever the leaf index. It fails for the frontend:
  \<open>hashTrapValue\<close> gives the value 0 different leaves at the indices 0 and 1.
\<close>

theorem leaf_binds_index_counterexample:
  "hashTrapValue 0 0 \<noteq> hashTrapValue 0 1"
  by (simp add: hashTrapValue_index)

text \<open>
  Claim C5, amended. The builder of the test-data generator hashes only the value of the
  cell: leaf \<open>i\<close> of \<open>buildMerkleTree G\<close> is \<open>poseidon1 (G[i])\<close>, and cells with equal values have
  equal leaves. The builder of the frontend binds the value and the index: leaf \<open>i\<close> of its
  tree is \<open>hashTrapValue (vs[i]) i\<close>, and \<open>hashTrapValue\<close> gives one value different leaves at
  different indices.
\<close>

theorem leaf_commitment_binding:
  "(i < length G \<longrightarrow> buildMerkleTree p1 p2 G ! 0 ! i = p1 (G ! i)) \<and>
   (i < length G \<and> j < length G \<and> G ! i = G ! j \<longrightarrow>
      buildMerkleTree p1 p2 G ! 0 ! i = buildMerkleTree p1 p2 G ! 0 ! j) \<and>
   (length vs = 64 \<and> i < 64 \<longrightarrow>
      (\<exists>t. buildMerkleTree_utils vs = Inr t \<and>
           tree_utils t ! 0 ! i = hashTrapValue (vs ! i) (int i))) \<and>
   (0 \<le> a \<and> 0 \<le> b \<longrightarrow> (hashTrapValue v a = hashTrapValue v b \<longleftrightarrow> a = b))"
proof -
  have l: "\<And>k. k < length G \<Longrightarrow> buildMerkleTree p1 p2 G ! 0 ! k = p1 (G ! k)"
    by (simp add: buildMerkleTree_levels computeTrapCommitment_def del: build_levels.simps)
  have u: "length vs = 64 \<and> i < 64 \<longrightarrow>
      (\<exists>t. buildMerkleTree_utils vs = Inr t \<and>
           tree_utils t ! 0 ! i = hashTrapValue (vs ! i) (int i))"
  proof (intro impI)
    assume h: "length vs = 64 \<and> i < 64"
    with buildMerkleTree_utils_tree [of vs] obtain t where
      "buildMerkleTree_utils vs = Inr t"
      "tree_utils t ! 0 = map (\<lambda>(v, index). hashTrapValue v (int index)) (zip vs [0..<length vs])"
      by blast
    with h show "\<exists>t. buildMerkleTree_utils vs = Inr t \<and>
           tree_utils t ! 0 ! i = hashTrapValue (vs ! i) (int i)"
      by simp
  qed
  show ?thesis using l u hashTrapValue_index by simp
qed

theorem leaf_commitment_binding_witness:
  "buildMerkleTree (\<lambda>v. v + 1) (\<lambda>a b. a + b + 1) [0, 1, 0] ! 0 ! 2 = 0 + 1 \<and>
   buildMerkleTree (\<lambda>v. v + 1) (\<lambda>a b. a + b + 1) [0, 1, 0] ! 0 ! 0
     = buildMerkleTree (\<lambda>v. v + 1) (\<lambda>a b. a + b + 1) [0, 1, 0] ! 0 ! 2 \<and>
   (\<exists>t. buildMerkleTree_utils (replicate 64 0) = Inr t \<and>
        tree_utils t ! 0 ! 2 = hashTrapValue (replicate 64 0 ! 2) (int 2)) \<and>
   hashTrapValue 0 3 \<noteq> hashTrapValue 0 5"
  using leaf_commitment_binding [of 2 "[0, 1, 0]" "\<lambda>v. v + 1" "\<lambda>a b. a + b + 1" 0 "replicate 64 0" 3 5 0]
    leaf_commitment_binding [of 0 "[0, 1, 0]" "\<lambda>v. v + 1" "\<lambda>a b. a + b + 1" 2 "replicate 64 0" 3 5 0]
  by simp


section \<open>The layout of the serialised public inputs\<close>

lemma be_value_snoc: "be_value (bs @ [b]) = 256 * be_value bs + unat b"
  by (simp add: be_value_def)

lemma be_value_zeros: "be_value (replicate n 0 @ bs) = be_value bs"
proof -
  have "foldl (\<lambda>acc b. 256 * acc + unat b) 0 (replicate n (0::byte)) = 0"
    by (induction n) simp_all
  then show ?thesis by (simp add: be_value_def)
qed

lemma length_be_bytes: "length (be_bytes n v) = n"
  by (induction n arbitrary: v) simp_all

lemma be_value_be_bytes: "0 \<le> v \<Longrightarrow> int (be_value (be_bytes n v)) = v mod 256 ^ n"
proof (induction n arbitrary: v)
  case 0
  then show ?case by (simp add: be_value_def)
next
  case (Suc n)
  have u: "uint (word_of_int v :: byte) = v mod 256"
    by (simp add: uint_word_of_int)
  from Suc.prems have "0 \<le> v div 256" by simp
  from Suc.IH [OF this] have "int (be_value (be_bytes n (v div 256))) = (v div 256) mod 256 ^ n" .
  then have "int (be_value (be_bytes (Suc n) v)) = 256 * ((v div 256) mod 256 ^ n) + v mod 256"
    by (simp add: be_value_snoc u)
  also have "\<dots> = v mod 256 ^ Suc n"
    using zmod_zmult2_eq [of "256 ^ n" v 256] by simp
  finally show ?case .
qed

lemma be_bytes_zero: "be_bytes n 0 = replicate n 0"
  by (induction n) (simp_all add: replicate_append_same)

lemma hex_digit_lt16: "hex_digit c = Some d \<Longrightarrow> d < 16"
  by (auto simp: hex_digit_def Let_def split: if_splits)

lemma hex_value_Some_Cons:
  "hex_value acc (c # cs) = Some v \<Longrightarrow> \<exists>d. hex_digit c = Some d \<and> hex_value (16 * acc + d) cs = Some v"
  by (simp split: option.splits)

lemma Buffer_from_hex_value:
  "hex_value acc s = Some v \<Longrightarrow> even (length s) \<Longrightarrow>
   foldl (\<lambda>a b. 256 * a + unat b) acc (Buffer_from_hex s) = v \<and>
   length (Buffer_from_hex s) = length s div 2"
proof (induction s arbitrary: acc rule: Buffer_from_hex.induct)
  case (1 a b rest)
  from hex_value_Some_Cons [OF "1.prems"(1)] obtain h where
    h: "hex_digit a = Some h" "hex_value (16 * acc + h) (b # rest) = Some v" by blast
  from hex_value_Some_Cons [OF h(2)] obtain l where
    l: "hex_digit b = Some l" "hex_value (16 * (16 * acc + h) + l) rest = Some v" by blast
  have lt: "16 * h + l < 256" using hex_digit_lt16 [OF h(1)] hex_digit_lt16 [OF l(1)] by simp
  then have u: "unat (of_nat (16 * h + l) :: byte) = 16 * h + l"
    by (subst unat_of_nat) simp
  have acc: "16 * (16 * acc + h) + l = 256 * acc + (16 * h + l)" by simp
  from "1.prems"(2) have ev: "even (length rest)" by simp
  from "1.IH" [OF refl h(1) l(1) l(2) ev]
  show ?case using h(1) l(1) u by (simp add: add.assoc)
qed simp_all

lemma hex_value_leading_zeros:
  "hex_value 0 (replicate k (CHR ''0'') @ s) = hex_value 0 s"
  by (induction k) (simp_all add: hex_digit_def)

lemma hexToBytes32_value:
  assumes "is_field s"
  shows "length (hexToBytes32 s) = 32 \<and> be_value (hexToBytes32 s) = field_value s"
proof -
  from assms obtain v where v: "hex_value 0 (cleanHex s) = Some v" and
    len: "length (cleanHex s) \<le> 64"
    by (auto simp: is_field_def)
  let ?padded = "padStart 64 (CHR ''0'') (cleanHex s)"
  have pl: "length ?padded = 64" using len by (simp add: padStart_def)
  have pv: "hex_value 0 ?padded = Some v"
    using v by (simp add: padStart_def hex_value_leading_zeros)
  from Buffer_from_hex_value [OF pv] pl
  have "foldl (\<lambda>a b. 256 * a + unat b) 0 (Buffer_from_hex ?padded) = v"
    "length (Buffer_from_hex ?padded) = 32" by simp_all
  then show ?thesis
    using v by (simp add: hexToBytes32_def be_value_def field_value_def Let_def)
qed

lemma u32ToBytes32_value:
  assumes "is_u32 s"
  shows "u32ToBytes32 s = Inr (replicate 28 0 @ be_bytes 4 (int (u32_value s)))"
proof -
  from assms obtain v where v: "dec_value 0 s = Some v" "v < 2 ^ 32"
    by (auto simp: is_u32_def split: option.splits)
  have hi: "int v div 4294967296 = 0" using v(2) by simp
  have lo: "int v mod 2 ^ 32 = int v" "int v mod 4294967296 = int v" using v(2) by simp_all
  have w1: "writeBigUInt64BE 0 24 (replicate 32 0) = Inr (replicate 32 0)"
  proof -
    have "replicate 24 (0::byte) @ replicate 8 0 = replicate 32 0"
      by (simp add: replicate_add [symmetric])
    then show ?thesis
      by (simp add: writeBigUInt64BE_def write_be_def be_bytes_zero)
  qed
  have w2: "writeUInt32BE (int v) 28 (replicate 32 0) = Inr (replicate 28 0 @ be_bytes 4 (int v))"
    using v(2) by (simp add: writeUInt32BE_def write_be_def length_be_bytes)
  show ?thesis
    using v(1) by (simp add: u32ToBytes32_def BigInt_of_string_def hi lo w1 w2 u32_value_def Let_def)
qed

lemma u32_bytes:
  assumes "v < 2 ^ 32"
  shows "length (replicate 28 0 @ be_bytes 4 (int v)) = 32"
    "be_value (replicate 28 0 @ be_bytes 4 (int v)) = v"
proof -
  show "length (replicate 28 0 @ be_bytes 4 (int v)) = 32" by (simp add: length_be_bytes)
  have "int (be_value (be_bytes 4 (int v))) = int v mod 256 ^ 4"
    by (rule be_value_be_bytes) simp
  also have "\<dots> = int v" using assms by simp
  finally show "be_value (replicate 28 0 @ be_bytes 4 (int v)) = v"
    by (simp add: be_value_zeros)
qed

lemma upt_6: "[0..<6] = [0, 1, 2, 3, 4, 5]"
  by (simp add: upt_rec)

lemma collect_Inr: "collect (map Inr xs) = Inr xs"
  by (induction xs) simp_all

lemma length_concat_uniform:
  "\<forall>f \<in> set fs. length f = n \<Longrightarrow> length (concat fs) = n * length fs"
  by (induction fs) simp_all

text \<open>
  Claim C8. For the Merkle circuit the serialised public inputs are exactly 17 fields of
  32 bytes, 544 bytes in all, in the declared order: \<open>trap_merkle_root\<close>, \<open>move_x\<close>,
  \<open>move_y\<close>, \<open>is_hit\<close>, \<open>trap_merkle_proof_length\<close>, the 6 proof indices and the 6 proof
  siblings. Each field is the big-endian encoding of its value, and the ten \<open>u32\<close> fields
  are right-aligned: their first 28 bytes are zero. The inputs are those the script is
  written for (fields that are hexadecimal strings of at most 64 digits, \<open>u32\<close> values that
  are decimal strings below \<open>2 ^ 32\<close>); a missing index counts as 0 and a missing sibling
  as \<open>0x0\<close>.
\<close>

theorem public_inputs_layout:
  assumes "is_field (trap_merkle_root p)"
    "is_u32 (pi_move_x p)" "is_u32 (pi_move_y p)" "is_u32 (pi_is_hit p)"
    "is_u32 (trap_merkle_proof_length p)"
    "\<forall>i \<in> set [0..<6]. is_u32 (index_entry p i)"
    "\<forall>i \<in> set [0..<6]. is_field (sibling_entry p i)"
  shows "\<exists>fs. build_fields p = Inr fs \<and> build_public_inputs p = Inr (concat fs) \<and>
              length fs = 17 \<and> (\<forall>f \<in> set fs. length f = 32) \<and> length (concat fs) = 544 \<and>
              map be_value fs =
                [field_value (trap_merkle_root p), u32_value (pi_move_x p), u32_value (pi_move_y p),
                 u32_value (pi_is_hit p), u32_value (trap_merkle_proof_length p)]
                @ map (\<lambda>i. u32_value (index_entry p i)) [0..<6]
                @ map (\<lambda>i. field_value (sibling_entry p i)) [0..<6] \<and>
              (\<forall>f \<in> set (take 10 (drop 1 fs)). take 28 f = replicate 28 0)"
proof -
  define U where "U s = replicate 28 (0::byte) @ be_bytes 4 (int (u32_value s))" for s
  define fs where
    "fs = [hexToBytes32 (trap_merkle_root p), U (pi_move_x p), U (pi_move_y p), U (pi_is_hit p),
           U (trap_merkle_proof_length p)]
          @ map (\<lambda>i. U (index_entry p i)) [0..<6]
          @ map (\<lambda>i. hexToBytes32 (sibling_entry p i)) [0..<6]"
  have u: "is_u32 s \<Longrightarrow> u32ToBytes32 s = Inr (U s)" for s
    by (simp add: u32ToBytes32_value U_def)
  have u32: "is_u32 s \<Longrightarrow> u32_value s < 2 ^ 32" for s
    by (auto simp: is_u32_def u32_value_def split: option.splits)
  have ulen: "is_u32 s \<Longrightarrow> length (U s) = 32 \<and> be_value (U s) = u32_value s \<and>
                take 28 (U s) = replicate 28 0" for s
    using u32_bytes [OF u32, of s] by (simp add: U_def)
  have idx: "map (\<lambda>i. u1ToBytes32 (index_entry p i)) [0..<6]
               = map (\<lambda>i. Inr (U (index_entry p i))) [0..<6]"
    using assms(6) by (intro map_cong refl) (simp add: u1ToBytes32_def u)
  have "[Inr (fieldToBytes32 (trap_merkle_root p)), u32ToBytes32 (pi_move_x p),
         u32ToBytes32 (pi_move_y p), u32ToBytes32 (pi_is_hit p),
         u32ToBytes32 (trap_merkle_proof_length p)]
        @ map (\<lambda>i. u1ToBytes32 (index_entry p i)) [0..<6]
        @ map (\<lambda>i. Inr (fieldToBytes32 (sibling_entry p i))) [0..<6]
        = map Inr fs"
    by (simp add: fs_def fieldToBytes32_def u assms idx comp_def del: upt.simps)
  then have bf: "build_fields p = Inr fs"
    unfolding build_fields_def by (simp only: collect_Inr)
  have len17: "length fs = 17" by (simp add: fs_def)
  have each: "\<forall>f \<in> set fs. length f = 32"
    using assms by (auto simp: fs_def ulen hexToBytes32_value simp del: upt.simps)
  have total: "length (concat fs) = 544"
    using length_concat_uniform [OF each] len17 by simp
  have vals: "map be_value fs =
                [field_value (trap_merkle_root p), u32_value (pi_move_x p), u32_value (pi_move_y p),
                 u32_value (pi_is_hit p), u32_value (trap_merkle_proof_length p)]
                @ map (\<lambda>i. u32_value (index_entry p i)) [0..<6]
                @ map (\<lambda>i. field_value (sibling_entry p i)) [0..<6]"
    using assms by (simp add: fs_def ulen hexToBytes32_value del: upt.simps)
  have right: "\<forall>f \<in> set (take 10 (drop 1 fs)). take 28 f = replicate 28 0"
    using assms(2-6) by (simp add: fs_def upt_6 ulen)
  from bf len17 each total vals right show ?thesis
    by (auto simp: build_public_inputs_def)
qed

theorem public_inputs_layout_witness:
  "\<exists>fs. build_public_inputs
          \<lparr>trap_merkle_root = ''0x1f'', pi_move_x = ''3'', pi_move_y = ''4'', pi_is_hit = ''0'',
           trap_merkle_proof_length = ''6'',
           trap_merkle_proof_indices = Some [''1'', ''0'', ''1''],
           trap_merkle_proof_siblings = Some [''0x0a'', ''ff'']\<rparr>
          = Inr (concat fs) \<and>
        length (concat fs) = 544 \<and>
        map be_value fs = [31, 3, 4, 0, 6, 1, 0, 1, 0, 0, 0, 10, 255, 0, 0, 0, 0]"
proof -
  let ?p = "\<lparr>trap_merkle_root = ''0x1f'', pi_move_x = ''3'', pi_move_y = ''4'', pi_is_hit = ''0'',
           trap_merkle_proof_length = ''6'',
           trap_merkle_proof_indices = Some [''1'', ''0'', ''1''],
           trap_merkle_proof_siblings = Some [''0x0a'', ''ff'']\<rparr>"
  have h: "is_field (trap_merkle_root ?p)"
    "is_u32 (pi_move_x ?p)" "is_u32 (pi_move_y ?p)" "is_u32 (pi_is_hit ?p)"
    "is_u32 (trap_merkle_proof_length ?p)"
    "\<forall>i \<in> set [0..<6]. is_u32 (index_entry ?p i)"
    "\<forall>i \<in> set [0..<6]. is_field (sibling_entry ?p i)"
    by (simp_all add: upt_6 index_entry_def proof_indices_def sibling_entry_def proof_siblings_def
        js_get_def js_or_str_def is_u32_def dec_digit_def is_field_def cleanHex_def hex_digit_def
        Let_def)
  have v: "[field_value (trap_merkle_root ?p), u32_value (pi_move_x ?p), u32_value (pi_move_y ?p),
            u32_value (pi_is_hit ?p), u32_value (trap_merkle_proof_length ?p)]
           @ map (\<lambda>i. u32_value (index_entry ?p i)) [0..<6]
           @ map (\<lambda>i. field_value (sibling_entry ?p i)) [0..<6]
           = [31, 3, 4, 0, 6, 1, 0, 1, 0, 0, 0, 10, 255, 0, 0, 0, 0]"
    by (simp add: upt_6 index_entry_def proof_indices_def sibling_entry_def proof_siblings_def
        js_get_def js_or_str_def u32_value_def dec_digit_def field_value_def cleanHex_def
        hex_digit_def Let_def)
  show ?thesis
    using public_inputs_layout [OF h] unfolding v
    by (elim exE conjE) (rule exI, intro conjI, assumption+)
qed

end
